theory Spec2Isabelle
  imports
    Complex_Main
    "HOL-Library.AList"
    "HOL-Library.List_Lexorder"
    "HOL-Library.Sublist"
    "HOL-Library.Multiset"
begin

text \<open>
  The two scripts of the repository, \<open>scripts/math-ocr-v2.py\<close> (a one-shot command) and
  \<open>scripts/math-ocr-service.py\<close> (a service that keeps its engines loaded), as
  functions of Isabelle/HOL: the search for the content of an image, the choice between
  the text engine and the formula engine, the handling of one image and of a directory
  of images, and the release of the engines. What the libraries and the file system do
  is a parameter, the record \<open>world\<close>.
\<close>

section \<open>Python values used by the two scripts\<close>

text \<open>
  A Python \<open>str\<close> is a sequence of Unicode code points; it is modelled as a list of
  natural numbers. \<open>py\<close> turns an ASCII literal of the source into such a list.
\<close>

type_synonym pystr = "nat list"

definition py :: "string \<Rightarrow> pystr" where
  "py s = map of_char s"

text \<open>
  \<open>str.isspace\<close> for one code point: the code points CPython treats as whitespace
  (U+0009..U+000D, U+001C..U+0020, U+0085, U+00A0, U+1680, U+2000..U+200A, U+2028,
  U+2029, U+202F, U+205F, U+3000).
\<close>

definition isspace :: "nat \<Rightarrow> bool" where
  "isspace c =
     ((9 \<le> c \<and> c \<le> 13) \<or> (28 \<le> c \<and> c \<le> 32) \<or> c = 133 \<or> c = 160 \<or> c = 5760 \<or>
      (8192 \<le> c \<and> c \<le> 8202) \<or> c = 8232 \<or> c = 8233 \<or> c = 8239 \<or> c = 8287 \<or>
      c = 12288)"

text \<open>\<open>str.strip()\<close>: leading and trailing whitespace removed.\<close>

definition strip :: "pystr \<Rightarrow> pystr" where
  "strip s = rev (dropWhile isspace (rev (dropWhile isspace s)))"

text \<open>
  Exceptions. \<open>except Exception\<close> catches every instance of \<open>Exception\<close>; the
  classes \<open>KeyboardInterrupt\<close> and \<open>SystemExit\<close> derive from \<open>BaseException\<close> only
  and pass through such a handler. Each instance of \<open>Exception\<close> carries the text
  that \<open>str(e)\<close> returns.
\<close>

datatype py_exc =
    RuntimeError pystr
  | FileNotFoundError pystr
  | OtherException pystr
  | KeyboardInterrupt
  | SystemExit

fun isinstance_Exception :: "py_exc \<Rightarrow> bool" where
  "isinstance_Exception (RuntimeError _) = True"
| "isinstance_Exception (FileNotFoundError _) = True"
| "isinstance_Exception (OtherException _) = True"
| "isinstance_Exception KeyboardInterrupt = False"
| "isinstance_Exception SystemExit = False"

fun str_exc :: "py_exc \<Rightarrow> pystr" where
  "str_exc (RuntimeError m) = m"
| "str_exc (FileNotFoundError m) = m"
| "str_exc (OtherException m) = m"
| "str_exc KeyboardInterrupt = []"
| "str_exc SystemExit = []"

section \<open>Image processing\<close>

subsection \<open>\<open>is_simple_content\<close>\<close>

text \<open>
  Both scripts hold the same function. \<open>content_width / content_height\<close> is Python's
  true division of two ints, a double; the model takes the exact quotient as a rational
  number and compares it with the decimal fractions \<open>2.5\<close>, \<open>0.35\<close> and \<open>2.0\<close> as the
  source writes them. The two agree at every input whose quotient is itself a double
  other than the one nearest to \<open>0.35\<close>, as the quotients 10, 0.25 and 1 are. The
  result is \<open>True\<close> for simple content and \<open>False\<close> for complex content.
\<close>

definition is_simple_content :: "int \<Rightarrow> int \<Rightarrow> int \<Rightarrow> int \<Rightarrow> bool" where
  "is_simple_content content_width content_height area_threshold max_dimension =
     (let area = content_width * content_height in
      if content_height = 0 then True
      else
        let aspect_ratio = (of_int content_width / of_int content_height :: rat) in
        if aspect_ratio > 5 / 2 then False
        else if aspect_ratio < 7 / 20 then False
        else if area < area_threshold \<and> aspect_ratio \<ge> 7 / 20 \<and> aspect_ratio \<le> 2 then True
        else if content_width < max_dimension \<and> content_height < max_dimension
                \<and> aspect_ratio \<ge> 7 / 20 \<and> aspect_ratio \<le> 2 then True
        else False)"

subsection \<open>\<open>crop_to_content\<close>\<close>

text \<open>
  \<open>crop_to_content\<close> is the same function in both scripts. A single-channel image
  as \<open>Image.open(path).convert("L")\<close> gives it: its size and the luminance of each
  pixel, read as \<open>pixels[x, y]\<close>.
\<close>

record gray_image =
  size_w :: int
  size_h :: int
  pixels :: "int \<times> int \<Rightarrow> int"

text \<open>\<open>img.crop((left, upper, right, lower))\<close>.\<close>

definition crop :: "gray_image \<Rightarrow> int \<times> int \<times> int \<times> int \<Rightarrow> gray_image" where
  "crop img box =
     (case box of (left, upper, right, lower) \<Rightarrow>
        \<lparr>size_w = right - left, size_h = lower - upper,
         pixels = (\<lambda>(x, y). pixels img (x + left, y + upper))\<rparr>)"

text \<open>
  One iteration of the inner loop of \<open>crop_to_content\<close>, on the running bounds
  \<open>(min_x, min_y, max_x, max_y)\<close>, and the two nested loops over \<open>range(h)\<close> and
  \<open>range(w)\<close>, started at \<open>(w, h, 0, 0)\<close>.
\<close>

definition scan_pixel ::
  "gray_image \<Rightarrow> int \<Rightarrow> int \<Rightarrow> int \<Rightarrow> int \<times> int \<times> int \<times> int \<Rightarrow> int \<times> int \<times> int \<times> int" where
  "scan_pixel img threshold y x b =
     (case b of (min_x, min_y, max_x, max_y) \<Rightarrow>
        if pixels img (x, y) < threshold
        then (min min_x x, min min_y y, max max_x x, max max_y y)
        else b)"

definition content_bounds :: "gray_image \<Rightarrow> int \<Rightarrow> int \<times> int \<times> int \<times> int" where
  "content_bounds img threshold =
     fold (\<lambda>y b. fold (scan_pixel img threshold y) [0..size_w img - 1] b)
       [0..size_h img - 1] (size_w img, size_h img, 0, 0)"

text \<open>
  What surrounds the scripts: the installed libraries and the file system. The engine
  objects are opaque; what they return on an image, or raise, is given by the world.
  An EasyOCR region is \<open>(bbox, text, confidence)\<close>; the confidence, a finite double,
  is modelled by the rational number it denotes, which keeps the order.
\<close>

datatype engine = Engine nat

type_synonym region = "(int \<times> int) list \<times> pystr \<times> rat"

type_synonym path = "pystr list"

record world =
  PIX2TEX_AVAILABLE :: bool
  EASYOCR_AVAILABLE :: bool
  Image_open_L :: "pystr \<Rightarrow> py_exc + gray_image"
  LatexOCR :: "py_exc + engine"
  easyocr_Reader :: "py_exc + engine"
  readtext :: "engine \<Rightarrow> gray_image \<Rightarrow> py_exc + region list"
  pix2tex_call :: "engine \<Rightarrow> gray_image \<Rightarrow> py_exc + pystr"
  path_exists :: "pystr \<Rightarrow> bool"
  glob :: "pystr \<Rightarrow> pystr \<Rightarrow> py_exc + path list"

text \<open>
  \<open>Image_open_L\<close> is \<open>Image.open(image_path).convert("L")\<close>; \<open>LatexOCR\<close> and
  \<open>easyocr_Reader\<close> are the two constructors; \<open>readtext\<close> stands for saving the crop
  (converted to RGB) to a temporary file, \<open>reader.readtext\<close> on it and the removal of
  the file; \<open>pix2tex_call\<close> is the call of the pix2tex model on the RGB crop;
  \<open>path_exists directory\<close> is \<open>Path(directory).exists()\<close> and \<open>glob directory pattern\<close>
  is what \<open>Path(directory).glob(pattern)\<close> yields, in the order of the file system,
  each path as the list of its parts (pathlib's POSIX flavour), or the exception it
  raises while it is consumed: \<open>ValueError\<close> on an empty pattern,
  \<open>NotImplementedError\<close> on an absolute one, an \<open>OSError\<close> of the file system.
\<close>

definition crop_to_content ::
  "world \<Rightarrow> pystr \<Rightarrow> int \<Rightarrow> int \<Rightarrow> py_exc + (gray_image option \<times> (int \<times> int \<times> int \<times> int))" where
  "crop_to_content wld image_path padding threshold =
     (case Image_open_L wld image_path of
        Inl e \<Rightarrow> Inl e
      | Inr img \<Rightarrow>
          (let w = size_w img; h = size_h img in
           case content_bounds img threshold of (min_x, min_y, max_x, max_y) \<Rightarrow>
             if max_x \<le> min_x \<or> max_y \<le> min_y then Inr (None, (0, 0, 0, 0))
             else
               let raw_w = max_x - min_x;
                   raw_h = max_y - min_y;
                   crop_min_x = max 0 (min_x - padding);
                   crop_min_y = max 0 (min_y - padding);
                   crop_max_x = min w (max_x + padding);
                   crop_max_y = min h (max_y + padding);
                   cropped = crop img (crop_min_x, crop_min_y, crop_max_x, crop_max_y)
               in Inr (Some cropped,
                       (raw_w, raw_h, crop_max_x - crop_min_x, crop_max_y - crop_min_y))))"

section \<open>The result of one image\<close>

text \<open>
  The dictionary \<open>ocr_image\<close> returns. The keys \<open>"file"\<close> and \<open>"method"\<close> are the
  fields \<open>res_file\<close> and \<open>res_method\<close>.
  A key that a dictionary does not have is \<open>None\<close> here: \<open>"content_size"\<close> in the
  service, \<open>"is_simple"\<close> in a failure.
\<close>

record ocr_result =
  success :: bool
  latex :: pystr
  res_file :: pystr
  error :: "pystr option"
  res_method :: pystr
  content_size :: "(int \<times> int) option"
  is_simple :: "bool option"

text \<open>
  \<open>texts = [(r[1], r[2]) for r in result]; texts.sort(key=lambda x: x[1], reverse=True);
  return texts[0][0]\<close>, the selection both \<open>ocr_simple\<close> methods make on a non-empty
  \<open>result\<close>. \<open>list.sort\<close> is stable, and with \<open>reverse=True\<close> it sorts the reversed
  list and reverses the outcome, so that equal keys keep their order.
\<close>

definition sort_reverse :: "('a \<Rightarrow> 'k::linorder) \<Rightarrow> 'a list \<Rightarrow> 'a list" where
  "sort_reverse key xs = rev (sort_key key (rev xs))"

definition highest_confidence_text :: "region list \<Rightarrow> pystr" where
  "highest_confidence_text result =
     (let texts = map (\<lambda>r. (fst (snd r), snd (snd r))) result;
          texts = sort_reverse snd texts
      in fst (hd texts))"

text \<open>The messages of the errors Python raises on an attribute or a call of \<open>None\<close>.\<close>

definition quote :: pystr where
  "quote = [39]"

definition AttributeError_None :: "string \<Rightarrow> py_exc" where
  "AttributeError_None attr =
     OtherException (quote @ py ''NoneType'' @ quote @ py '' object has no attribute ''
                     @ quote @ py attr @ quote)"

definition TypeError_None_call :: py_exc where
  "TypeError_None_call =
     OtherException (quote @ py ''NoneType'' @ quote @ py '' object is not callable'')"

section \<open>\<open>math-ocr-v2.py\<close>: class \<open>HybridOCR\<close>\<close>

record HybridOCR =
  pix2tex_model :: "engine option"
  easyocr_reader :: "engine option"
  pix2tex_initialized :: bool
  easyocr_initialized :: bool

text \<open>\<open>__init__\<close>.\<close>

definition HybridOCR_init :: HybridOCR where
  "HybridOCR_init =
     \<lparr>pix2tex_model = None, easyocr_reader = None,
      pix2tex_initialized = False, easyocr_initialized = False\<rparr>"

text \<open>
  A method returns its value, or the exception it raises, together with the object as
  the call leaves it.
\<close>

definition ensure_pix2tex :: "world \<Rightarrow> HybridOCR \<Rightarrow> (py_exc + unit) \<times> HybridOCR" where
  "ensure_pix2tex wld self =
     (if pix2tex_initialized self then (Inr (), self)
      else if \<not> PIX2TEX_AVAILABLE wld
      then (Inl (RuntimeError (py ''pix2tex not available'')), self)
      else case LatexOCR wld of
             Inl e \<Rightarrow> (Inl e, self)
           | Inr m \<Rightarrow> (Inr (), self\<lparr>pix2tex_model := Some m, pix2tex_initialized := True\<rparr>))"

definition ensure_easyocr :: "world \<Rightarrow> HybridOCR \<Rightarrow> (py_exc + unit) \<times> HybridOCR" where
  "ensure_easyocr wld self =
     (if easyocr_initialized self then (Inr (), self)
      else if \<not> EASYOCR_AVAILABLE wld
      then (Inl (RuntimeError (py ''easyocr not available'')), self)
      else case easyocr_Reader wld of
             Inl e \<Rightarrow> (Inl e, self)
           | Inr rd \<Rightarrow> (Inr (), self\<lparr>easyocr_reader := Some rd, easyocr_initialized := True\<rparr>))"

text \<open>
  \<open>cleanup\<close>: \<open>del self.pix2tex_model\<close> followed by \<open>self.pix2tex_model = None\<close> leaves
  the attribute \<open>None\<close>. The messages on stderr and the collection of garbage and of
  GPU memory do not touch the object.
\<close>

definition cleanup :: "HybridOCR \<Rightarrow> HybridOCR" where
  "cleanup self =
     (let self1 = (if pix2tex_model self \<noteq> None
                   then self\<lparr>pix2tex_model := None, pix2tex_initialized := False\<rparr>
                   else self);
          self2 = (if easyocr_reader self1 \<noteq> None
                   then self1\<lparr>easyocr_reader := None, easyocr_initialized := False\<rparr>
                   else self1)
      in self2)"

definition ocr_simple :: "world \<Rightarrow> HybridOCR \<Rightarrow> gray_image \<Rightarrow> (py_exc + pystr) \<times> HybridOCR" where
  "ocr_simple wld self cropped_img =
     (case ensure_easyocr wld self of
        (Inl e, self1) \<Rightarrow> (Inl e, self1)
      | (Inr _, self1) \<Rightarrow>
          (case easyocr_reader self1 of
             None \<Rightarrow> (Inl (AttributeError_None ''readtext''), self1)
           | Some rd \<Rightarrow>
               (case readtext wld rd cropped_img of
                  Inl e \<Rightarrow> (Inl e, self1)
                | Inr result \<Rightarrow>
                    if result \<noteq> [] then (Inr (highest_confidence_text result), self1)
                    else (Inr [], self1))))"

definition ocr_complex :: "world \<Rightarrow> HybridOCR \<Rightarrow> gray_image \<Rightarrow> (py_exc + pystr) \<times> HybridOCR" where
  "ocr_complex wld self cropped_img =
     (case ensure_pix2tex wld self of
        (Inl e, self1) \<Rightarrow> (Inl e, self1)
      | (Inr _, self1) \<Rightarrow>
          (case pix2tex_model self1 of
             None \<Rightarrow> (Inl TypeError_None_call, self1)
           | Some m \<Rightarrow>
               (case pix2tex_call wld m cropped_img of
                  Inl e \<Rightarrow> (Inl e, self1)
                | Inr out \<Rightarrow> (Inr out, self1))))"

text \<open>
  The body of the \<open>try\<close> of \<open>ocr_image\<close>. After the fallback the source tests
  \<open>text.isdigit()\<close> and assigns \<open>latex = text\<close> in each of the three branches.
\<close>

definition ocr_image_try :: "world \<Rightarrow> HybridOCR \<Rightarrow> pystr \<Rightarrow> (py_exc + ocr_result) \<times> HybridOCR" where
  "ocr_image_try wld self image_path =
     (case crop_to_content wld image_path 20 250 of
        Inl e \<Rightarrow> (Inl e, self)
      | Inr (None, _) \<Rightarrow>
          (Inr \<lparr>success = False, latex = [], res_file = image_path,
                error = Some (py ''No content found''), res_method = py ''none'',
                content_size = Some (0, 0), is_simple = None\<rparr>, self)
      | Inr (Some cropped, (content_w, content_h, _, _)) \<Rightarrow>
          (let simple = is_simple_content content_w content_h 5000 80 in
           if simple then
             (case ocr_simple wld self cropped of
                (Inl e, self1) \<Rightarrow> (Inl e, self1)
              | (Inr text0, self1) \<Rightarrow>
                  (let text = strip text0 in
                   if text = [] then
                     (case ocr_complex wld self1 cropped of
                        (Inl e, self2) \<Rightarrow> (Inl e, self2)
                      | (Inr text2, self2) \<Rightarrow>
                          (Inr \<lparr>success = True, latex = text2, res_file = image_path,
                                error = None, res_method = py ''easyocr+pix2tex'',
                                content_size = Some (content_w, content_h),
                                is_simple = Some simple\<rparr>, self2))
                   else
                     (Inr \<lparr>success = True, latex = text, res_file = image_path,
                           error = None, res_method = py ''easyocr'',
                           content_size = Some (content_w, content_h),
                           is_simple = Some simple\<rparr>, self1)))
           else
             (case ocr_complex wld self cropped of
                (Inl e, self1) \<Rightarrow> (Inl e, self1)
              | (Inr latex0, self1) \<Rightarrow>
                  (Inr \<lparr>success = True, latex = latex0, res_file = image_path,
                        error = None, res_method = py ''pix2tex'',
                        content_size = Some (content_w, content_h),
                        is_simple = Some simple\<rparr>, self1))))"

text \<open>\<open>ocr_image\<close>: the \<open>try\<close> with its handler \<open>except Exception as e\<close>.\<close>

definition ocr_image :: "world \<Rightarrow> HybridOCR \<Rightarrow> pystr \<Rightarrow> (py_exc + ocr_result) \<times> HybridOCR" where
  "ocr_image wld self image_path =
     (case ocr_image_try wld self image_path of
        (Inr r, self1) \<Rightarrow> (Inr r, self1)
      | (Inl e, self1) \<Rightarrow>
          if isinstance_Exception e then
            (Inr \<lparr>success = False, latex = [], res_file = image_path,
                  error = Some (str_exc e), res_method = py ''error'',
                  content_size = Some (0, 0), is_simple = None\<rparr>, self1)
          else (Inl e, self1))"

subsection \<open>\<open>ocr_directory\<close>\<close>

text \<open>
  \<open>img_path.name\<close> is the last part of a path and \<open>str(img_path)\<close> joins the parts.
\<close>

definition path_name :: "path \<Rightarrow> pystr" where
  "path_name p = (if p = [] then [] else last p)"

fun join_parts :: "path \<Rightarrow> pystr" where
  "join_parts [] = []"
| "join_parts [p] = p"
| "join_parts (p # q # ps) = p @ py ''/'' @ join_parts (q # ps)"

definition path_str :: "path \<Rightarrow> pystr" where
  "path_str p =
     (case p of
        [] \<Rightarrow> py ''.''
      | r # ps \<Rightarrow> if r = py ''/'' then r @ join_parts ps else join_parts p)"

text \<open>
  The dictionary \<open>results\<close> keeps its keys in the order of their first insertion, and
  an assignment to a key it has replaces the value in place: an association list under
  \<open>AList.update\<close>. An entry of \<open>errors\<close> is \<open>{"file": ..., "error": ...}\<close>.
\<close>

record error_entry =
  err_file :: pystr
  err_error :: "pystr option"

record batch_report =
  results :: "(pystr \<times> pystr) list"
  count_results :: int
  success_count :: int
  simple_count :: int
  complex_count :: int
  errors :: "error_entry list"

text \<open>\<open>f"{v}"\<close> for a value that is a string or \<open>None\<close>.\<close>

definition format_opt :: "pystr option \<Rightarrow> pystr" where
  "format_opt v = (case v of None \<Rightarrow> py ''None'' | Some m \<Rightarrow> m)"

text \<open>
  The loop variables are \<open>(results, errors, simple_count, complex_count)\<close>;
  \<open>tally\<close> is the \<open>if result["success"]: ... else: ...\<close> of the loop body, which both
  scripts share.
\<close>

type_synonym loop_vars = "(pystr \<times> pystr) list \<times> error_entry list \<times> int \<times> int"

definition tally :: "pystr \<Rightarrow> ocr_result \<Rightarrow> loop_vars \<Rightarrow> loop_vars" where
  "tally fname result vars =
     (case vars of (res, errs, simple_n, complex_n) \<Rightarrow>
        if success result then
          (AList.update fname (latex result) res, errs,
           (if is_simple result = Some True then simple_n + 1 else simple_n),
           (if is_simple result = Some True then complex_n else complex_n + 1))
        else
          (AList.update fname (py ''[ERROR: '' @ format_opt (error result) @ py '']'') res,
           errs @ [\<lparr>err_file = fname, err_error = error result\<rparr>],
           simple_n, complex_n))"

definition make_report :: "loop_vars \<Rightarrow> batch_report" where
  "make_report vars =
     (case vars of (res, errs, simple_n, complex_n) \<Rightarrow>
        \<lparr>results = res, count_results = int (length res),
         success_count = int (length res) - int (length errs),
         simple_count = simple_n, complex_count = complex_n, errors = errs\<rparr>)"

definition empty_report :: batch_report where
  "empty_report =
     \<lparr>results = [], count_results = 0, success_count = 0, simple_count = 0,
      complex_count = 0, errors = []\<rparr>"

text \<open>The \<open>for\<close> loop of \<open>HybridOCR.ocr_directory\<close>; an exception ends it.\<close>

fun batch_loop ::
  "world \<Rightarrow> path list \<Rightarrow> HybridOCR \<Rightarrow> loop_vars \<Rightarrow> (py_exc + loop_vars) \<times> HybridOCR" where
  "batch_loop wld [] self vars = (Inr vars, self)"
| "batch_loop wld (img_path # rest) self vars =
     (case ocr_image wld self (path_str img_path) of
        (Inl e, self1) \<Rightarrow> (Inl e, self1)
      | (Inr result, self1) \<Rightarrow>
          batch_loop wld rest self1 (tally (path_name img_path) result vars))"

text \<open>
  \<open>HybridOCR.ocr_directory\<close>. \<open>sorted\<close> consumes the listing, so that an exception of
  \<open>glob\<close> is raised there, before the \<open>try\<close>, and compares the paths part by part. The
  \<open>finally\<close> clause runs \<open>cleanup\<close> when \<open>auto_cleanup\<close> is set, whether the loop
  ended or raised. The progress and GPU memory messages on stderr are left out.
\<close>

definition ocr_directory ::
  "world \<Rightarrow> HybridOCR \<Rightarrow> pystr \<Rightarrow> pystr \<Rightarrow> bool \<Rightarrow> (py_exc + batch_report) \<times> HybridOCR" where
  "ocr_directory wld self directory pattern auto_cleanup =
     (if \<not> path_exists wld directory
      then (Inl (FileNotFoundError (py ''Directory not found: '' @ directory)), self)
      else
        (case glob wld directory pattern of
           Inl e \<Rightarrow> (Inl e, self)
         | Inr listed \<Rightarrow>
             let image_files = sort listed in
             if image_files = [] then (Inr empty_report, self)
             else
               (case batch_loop wld image_files self ([], [], 0, 0) of
                  (Inl e, self1) \<Rightarrow> (Inl e, if auto_cleanup then cleanup self1 else self1)
                | (Inr vars, self1) \<Rightarrow>
                    (Inr (make_report vars),
                     if auto_cleanup then cleanup self1 else self1))))"

section \<open>\<open>math-ocr-service.py\<close>: class \<open>OCRService\<close>\<close>

text \<open>
  The two engine attributes of the service object. Its \<open>_processing_lock\<close> is part of
  the model of the request handlers below.
\<close>

record OCRService =
  svc_pix2tex_model :: "engine option"
  svc_easyocr_reader :: "engine option"

definition OCRService_init :: OCRService where
  "OCRService_init = \<lparr>svc_pix2tex_model = None, svc_easyocr_reader = None\<rparr>"

definition load_models :: "world \<Rightarrow> OCRService \<Rightarrow> (py_exc + unit) \<times> OCRService" where
  "load_models wld self =
     (case (if PIX2TEX_AVAILABLE wld \<and> svc_pix2tex_model self = None
            then (case LatexOCR wld of
                    Inl e \<Rightarrow> (Inl e, self)
                  | Inr m \<Rightarrow> (Inr (), self\<lparr>svc_pix2tex_model := Some m\<rparr>))
            else (Inr (), self)) of
        (Inl e, self1) \<Rightarrow> (Inl e, self1)
      | (Inr _, self1) \<Rightarrow>
          (if EASYOCR_AVAILABLE wld \<and> svc_easyocr_reader self1 = None
           then (case easyocr_Reader wld of
                   Inl e \<Rightarrow> (Inl e, self1)
                 | Inr rd \<Rightarrow> (Inr (), self1\<lparr>svc_easyocr_reader := Some rd\<rparr>))
           else (Inr (), self1)))"

definition svc_ocr_simple :: "world \<Rightarrow> OCRService \<Rightarrow> gray_image \<Rightarrow> py_exc + pystr" where
  "svc_ocr_simple wld self cropped_img =
     (case svc_easyocr_reader self of
        None \<Rightarrow> Inl (RuntimeError (py ''EasyOCR not loaded''))
      | Some rd \<Rightarrow>
          (case readtext wld rd cropped_img of
             Inl e \<Rightarrow> Inl e
           | Inr result \<Rightarrow>
               if result \<noteq> [] then Inr (highest_confidence_text result) else Inr []))"

definition svc_ocr_complex :: "world \<Rightarrow> OCRService \<Rightarrow> gray_image \<Rightarrow> py_exc + pystr" where
  "svc_ocr_complex wld self cropped_img =
     (case svc_pix2tex_model self of
        None \<Rightarrow> Inl (RuntimeError (py ''pix2tex not loaded''))
      | Some m \<Rightarrow> pix2tex_call wld m cropped_img)"

definition svc_ocr_image_try :: "world \<Rightarrow> OCRService \<Rightarrow> pystr \<Rightarrow> py_exc + ocr_result" where
  "svc_ocr_image_try wld self image_path =
     (case crop_to_content wld image_path 20 250 of
        Inl e \<Rightarrow> Inl e
      | Inr (None, _) \<Rightarrow>
          Inr \<lparr>success = False, latex = [], res_file = image_path,
               error = Some (py ''No content found''), res_method = py ''none'',
               content_size = None, is_simple = None\<rparr>
      | Inr (Some cropped, (content_w, content_h, _, _)) \<Rightarrow>
          (let simple = is_simple_content content_w content_h 5000 80 in
           if simple then
             (case svc_ocr_simple wld self cropped of
                Inl e \<Rightarrow> Inl e
              | Inr text0 \<Rightarrow>
                  (let text = strip text0 in
                   if text = [] then
                     (case svc_ocr_complex wld self cropped of
                        Inl e \<Rightarrow> Inl e
                      | Inr text2 \<Rightarrow>
                          Inr \<lparr>success = True, latex = text2, res_file = image_path,
                               error = None, res_method = py ''easyocr+pix2tex'',
                               content_size = None, is_simple = Some simple\<rparr>)
                   else
                     Inr \<lparr>success = True, latex = text, res_file = image_path,
                          error = None, res_method = py ''easyocr'',
                          content_size = None, is_simple = Some simple\<rparr>))
           else
             (case svc_ocr_complex wld self cropped of
                Inl e \<Rightarrow> Inl e
              | Inr latex0 \<Rightarrow>
                  Inr \<lparr>success = True, latex = latex0, res_file = image_path,
                       error = None, res_method = py ''pix2tex'',
                       content_size = None, is_simple = Some simple\<rparr>)))"

definition svc_ocr_image :: "world \<Rightarrow> OCRService \<Rightarrow> pystr \<Rightarrow> py_exc + ocr_result" where
  "svc_ocr_image wld self image_path =
     (case svc_ocr_image_try wld self image_path of
        Inr r \<Rightarrow> Inr r
      | Inl e \<Rightarrow>
          if isinstance_Exception e then
            Inr \<lparr>success = False, latex = [], res_file = image_path,
                 error = Some (str_exc e), res_method = py ''error'',
                 content_size = None, is_simple = None\<rparr>
          else Inl e)"

fun svc_batch_loop ::
  "world \<Rightarrow> path list \<Rightarrow> OCRService \<Rightarrow> loop_vars \<Rightarrow> py_exc + loop_vars" where
  "svc_batch_loop wld [] self vars = Inr vars"
| "svc_batch_loop wld (img_path # rest) self vars =
     (case svc_ocr_image wld self (path_str img_path) of
        Inl e \<Rightarrow> Inl e
      | Inr result \<Rightarrow>
          svc_batch_loop wld rest self (tally (path_name img_path) result vars))"

text \<open>
  \<open>OCRService.ocr_directory\<close>, run by one thread that finds the lock free: the body
  of \<open>with self._processing_lock\<close>. Its \<open>gc.collect()\<close> does not touch the engines.
\<close>

definition svc_ocr_directory ::
  "world \<Rightarrow> OCRService \<Rightarrow> pystr \<Rightarrow> pystr \<Rightarrow> py_exc + batch_report" where
  "svc_ocr_directory wld self directory pattern =
     (if \<not> path_exists wld directory
      then Inl (FileNotFoundError (py ''Directory not found: '' @ directory))
      else
        (case glob wld directory pattern of
           Inl e \<Rightarrow> Inl e
         | Inr listed \<Rightarrow>
             let image_files = sort listed in
             if image_files = [] then Inr empty_report
             else
               (case svc_batch_loop wld image_files self ([], [], 0, 0) of
                  Inl e \<Rightarrow> Inl e
                | Inr vars \<Rightarrow> Inr (make_report vars))))"

subsection \<open>The request handlers\<close>

text \<open>
  The handlers \<open>ocr_batch\<close> and \<open>ocr_single\<close> hand their call to a worker thread of the
  default executor (\<open>loop.run_in_executor(None, ...)\<close>) and await it, so that several
  requests are in progress at once, each in a thread of its own. A thread is modelled
  by the steps it has yet to take, as far as they concern the lock and the calls of
  \<open>ocr_image\<close>: \<open>ocr_directory\<close> takes \<open>self._processing_lock\<close>, calls \<open>ocr_image\<close> on each
  file in turn and releases the lock on leaving the \<open>with\<close> block, also when the
  directory is missing or the listing raises; the handler \<open>ocr_single\<close> calls
  \<open>ocr_service.ocr_image\<close> and nothing else.
\<close>

datatype step = Acquire_lock | Release_lock | Enter_ocr_image pystr | Leave_ocr_image pystr

definition ocr_batch :: "world \<Rightarrow> pystr \<Rightarrow> pystr \<Rightarrow> step list" where
  "ocr_batch wld directory pattern =
     Acquire_lock #
     (if \<not> path_exists wld directory then []
      else (case glob wld directory pattern of
              Inl e \<Rightarrow> []
            | Inr listed \<Rightarrow>
                concat (map (\<lambda>img_path. [Enter_ocr_image (path_str img_path),
                                          Leave_ocr_image (path_str img_path)])
                            (sort listed))))
     @ [Release_lock]"

definition ocr_single :: "pystr \<Rightarrow> step list" where
  "ocr_single image_path = [Enter_ocr_image image_path, Leave_ocr_image image_path]"

text \<open>
  One step of a thread, given whether the lock is held: \<open>None\<close> when the thread has
  ended or waits for the lock. A schedule names the thread that takes each step.
\<close>

fun take_step :: "bool \<Rightarrow> step list \<Rightarrow> (bool \<times> step list) option" where
  "take_step locked [] = None"
| "take_step locked (Acquire_lock # rest) = (if locked then None else Some (True, rest))"
| "take_step locked (Release_lock # rest) = Some (False, rest)"
| "take_step locked (Enter_ocr_image p # rest) = Some (locked, rest)"
| "take_step locked (Leave_ocr_image p # rest) = Some (locked, rest)"

fun run_threads :: "nat list \<Rightarrow> bool \<times> step list list \<Rightarrow> (bool \<times> step list list) option" where
  "run_threads [] st = Some st"
| "run_threads (i # schedule) (locked, threads) =
     (if i < length threads
      then (case take_step locked (threads ! i) of
              None \<Rightarrow> None
            | Some (locked', t) \<Rightarrow> run_threads schedule (locked', threads[i := t]))
      else None)"

text \<open>A thread is inside \<open>ocr_image\<close> when its next step is to leave it.\<close>

fun inside_ocr_image :: "step list \<Rightarrow> bool" where
  "inside_ocr_image (Leave_ocr_image p # rest) = True"
| "inside_ocr_image _ = False"

definition executions :: "step list list \<Rightarrow> nat" where
  "executions threads = length (filter inside_ocr_image threads)"

section \<open>Predicates used in the proofs\<close>

text \<open>
  The invariants of the scan of \<open>crop_to_content\<close> on an image whose dark pixels all
  lie in row \<open>y0\<close>, or all in column \<open>x0\<close>: the bounds of that axis never cross.
\<close>

definition row_inv :: "int \<Rightarrow> int \<times> int \<times> int \<times> int \<Rightarrow> bool" where
  "row_inv y0 b = (case b of (min_x, min_y, max_x, max_y) \<Rightarrow> max_y \<le> y0 \<and> y0 \<le> min_y)"

definition col_inv :: "int \<Rightarrow> int \<times> int \<times> int \<times> int \<Rightarrow> bool" where
  "col_inv x0 b = (case b of (min_x, min_y, max_x, max_y) \<Rightarrow> max_x \<le> x0 \<and> x0 \<le> min_x)"

text \<open>
  The states of a \<open>HybridOCR\<close> object that its methods produce: a flag is set
  only when its engine is present.
\<close>

definition loaded_consistent :: "HybridOCR \<Rightarrow> bool" where
  "loaded_consistent self =
     ((pix2tex_initialized self \<longrightarrow> pix2tex_model self \<noteq> None)
      \<and> (easyocr_initialized self \<longrightarrow> easyocr_reader self \<noteq> None))"

text \<open>
  The dictionaries \<open>ocr_image\<close> builds, by the method it reports; \<open>csize\<close> is the
  value under \<open>"content_size"\<close> (\<open>None\<close> in the service, which has no such key).
\<close>

definition recognized ::
  "pystr \<Rightarrow> pystr \<Rightarrow> string \<Rightarrow> (int \<times> int) option \<Rightarrow> bool \<Rightarrow> ocr_result" where
  "recognized image_path text how csize simple =
     \<lparr>success = True, latex = text, res_file = image_path, error = None,
      res_method = py how, content_size = csize, is_simple = Some simple\<rparr>"

definition exception_result :: "pystr \<Rightarrow> py_exc \<Rightarrow> (int \<times> int) option \<Rightarrow> ocr_result" where
  "exception_result image_path e csize =
     \<lparr>success = False, latex = [], res_file = image_path, error = Some (str_exc e),
      res_method = py ''error'', content_size = csize, is_simple = None\<rparr>"

text \<open>What one run of the loop adds, whichever script runs it.\<close>

definition loop_adds :: "path list \<Rightarrow> loop_vars \<Rightarrow> loop_vars \<Rightarrow> bool" where
  "loop_adds fs vars vars' =
     (case (vars, vars') of ((res, errs, sn, cn), (res', errs', sn', cn')) \<Rightarrow>
        (\<exists>es. errs' = errs @ es \<and> subseq (map err_file es) (map path_name fs)
              \<and> (distinct (map fst res @ map path_name fs) \<longrightarrow>
                    map fst res' = map fst res @ map path_name fs
                    \<and> int (length res') - int (length errs')
                        = int (length res) - int (length errs)
                          + int (length fs) - int (length es))))"

text \<open>
  For the threads of batch requests: a thread is in its critical section when it has
  taken the lock and not yet released it; the remaining steps of such a thread have
  the shape of a suffix of \<open>ocr_batch\<close>; and the lock is held exactly when one thread
  is in its critical section.
\<close>

definition critical :: "step list \<Rightarrow> bool" where
  "critical t = (t \<noteq> [] \<and> hd t \<noteq> Acquire_lock)"

definition batch_shaped :: "step list \<Rightarrow> bool" where
  "batch_shaped t =
     (Acquire_lock \<notin> set (tl t)
      \<and> (t \<noteq> [] \<longrightarrow> last t = Release_lock \<and> Release_lock \<notin> set (butlast t)))"

definition lock_inv :: "bool \<times> step list list \<Rightarrow> bool" where
  "lock_inv st =
     (case st of (locked, threads) \<Rightarrow>
        (\<forall>t\<in>set threads. batch_shaped t)
        \<and> length (filter critical threads) = (if locked then 1 else 0))"

text \<open>
  For the entries of a report: the string stored for a result; the results \<open>ocr_image\<close>
  returns to the loop of \<open>HybridOCR.ocr_directory\<close>, one after the other; and what the
  loop has recorded of the results \<open>rs\<close> of the files \<open>fs\<close>: the entry of each file under
  its name, the error record of each failure, and nothing else changed.
\<close>

definition entry_of :: "ocr_result \<Rightarrow> pystr" where
  "entry_of r =
     (if success r then latex r else py ''[ERROR: '' @ format_opt (error r) @ py '']'')"

fun loop_results :: "world \<Rightarrow> path list \<Rightarrow> HybridOCR \<Rightarrow> ocr_result list" where
  "loop_results wld [] self = []"
| "loop_results wld (img_path # rest) self =
     (case ocr_image wld self (path_str img_path) of
        (Inl e, self1) \<Rightarrow> []
      | (Inr result, self1) \<Rightarrow> result # loop_results wld rest self1)"

definition entries_recorded :: "path list \<Rightarrow> ocr_result list \<Rightarrow> loop_vars \<Rightarrow> loop_vars \<Rightarrow> bool" where
  "entries_recorded fs rs vars vars' =
     (length rs = length fs
      \<and> (\<forall>i<length fs.
            map_of (fst vars') (path_name (fs ! i)) = Some (entry_of (rs ! i))
            \<and> (\<not> success (rs ! i) \<longrightarrow>
                 \<lparr>err_file = path_name (fs ! i), err_error = error (rs ! i)\<rparr>
                   \<in> set (fst (snd vars'))))
      \<and> (\<forall>k. k \<notin> path_name ` set fs \<longrightarrow> map_of (fst vars') k = map_of (fst vars) k)
      \<and> set (fst (snd vars)) \<subseteq> set (fst (snd vars')))"

section \<open>Example inputs\<close>

text \<open>
  Four small images: one dark pixel; two dark pixels spanning a 1 by 1 box; two dark
  pixels spanning a 6 by 1 box; no dark pixel.
\<close>

definition dot_image :: gray_image where
  "dot_image =
     \<lparr>size_w = 3, size_h = 3, pixels = (\<lambda>(x, y). if x = 1 \<and> y = 1 then 0 else 255)\<rparr>"

definition digit_image :: gray_image where
  "digit_image =
     \<lparr>size_w = 4, size_h = 4,
      pixels = (\<lambda>(x, y). if (x = 1 \<and> y = 1) \<or> (x = 2 \<and> y = 2) then 0 else 255)\<rparr>"

definition formula_image :: gray_image where
  "formula_image =
     \<lparr>size_w = 8, size_h = 3,
      pixels = (\<lambda>(x, y). if (x = 0 \<and> y = 0) \<or> (x = 6 \<and> y = 1) then 0 else 255)\<rparr>"

definition blank_image :: gray_image where
  "blank_image = \<lparr>size_w = 2, size_h = 2, pixels = (\<lambda>(x, y). 255)\<rparr>"

definition demo_regions :: "region list" where
  "demo_regions = [([], py ''1'', 1 / 2), ([], py ''7'', 9 / 10), ([], py ''9'', 9 / 10)]"

text \<open>
  A world with both engines installed. Directory \<open>d\<close> holds three images; directory
  \<open>n\<close> holds \<open>a/z.png\<close> and \<open>b/a.png\<close>, directory \<open>c\<close> holds \<open>a/x.png\<close> and
  \<open>b/x.png\<close>, all four without content; directory \<open>empty\<close> exists and holds nothing.
  The empty pattern is refused by \<open>glob\<close>.
\<close>

definition demo_files :: "path list" where
  "demo_files =
     [[py ''d'', py ''formula.png''], [py ''d'', py ''dot.png''], [py ''d'', py ''digit.png'']]"

definition nested_files :: "path list" where
  "nested_files = [[py ''n'', py ''b'', py ''a.png''], [py ''n'', py ''a'', py ''z.png'']]"

definition collision_files :: "path list" where
  "collision_files = [[py ''c'', py ''a'', py ''x.png''], [py ''c'', py ''b'', py ''x.png'']]"

definition unacceptable_pattern :: py_exc where
  "unacceptable_pattern = OtherException (py ''Unacceptable pattern: '' @ quote @ quote)"

definition demo_world :: world where
  "demo_world =
     \<lparr>PIX2TEX_AVAILABLE = True, EASYOCR_AVAILABLE = True,
      Image_open_L =
        (\<lambda>p. if p = py ''d/dot.png'' then Inr dot_image
             else if p = py ''d/digit.png'' then Inr digit_image
             else if p = py ''d/formula.png'' then Inr formula_image
             else if p = py ''n/a/z.png'' \<or> p = py ''n/b/a.png''
                     \<or> p = py ''c/a/x.png'' \<or> p = py ''c/b/x.png'' then Inr blank_image
             else Inl (FileNotFoundError (py ''No such file''))),
      LatexOCR = Inr (Engine 1),
      easyocr_Reader = Inr (Engine 2),
      readtext = (\<lambda>e img. Inr demo_regions),
      pix2tex_call = (\<lambda>e img. Inr (py ''x^2'')),
      path_exists = (\<lambda>d. d = py ''d'' \<or> d = py ''n'' \<or> d = py ''c'' \<or> d = py ''empty''),
      glob =
        (\<lambda>d pat.
           if pat = [] then Inl unacceptable_pattern
           else if d = py ''d'' \<and> pat = py ''*.png'' then Inr demo_files
           else if d = py ''n'' \<and> pat = py ''*/*.png'' then Inr nested_files
           else if d = py ''c'' \<and> pat = py ''*/*.png'' then Inr collision_files
           else Inr [])\<rparr>"

text \<open>The same world with a text engine that reads only blanks.\<close>

definition silent_world :: world where
  "silent_world = demo_world\<lparr>readtext := (\<lambda>e img. Inr [([], py ''  '', 9 / 10)])\<rparr>"

text \<open>The same world with a formula engine whose call is interrupted.\<close>

definition interrupted_world :: world where
  "interrupted_world = demo_world\<lparr>pix2tex_call := (\<lambda>e img. Inl KeyboardInterrupt)\<rparr>"

text \<open>The same world with a formula engine that is not installed.\<close>

definition text_only_world :: world where
  "text_only_world = silent_world\<lparr>PIX2TEX_AVAILABLE := False\<rparr>"

text \<open>An object with both engines loaded, and the service after \<open>load_models\<close>.\<close>

definition loaded_HybridOCR :: HybridOCR where
  "loaded_HybridOCR =
     \<lparr>pix2tex_model = Some (Engine 1), easyocr_reader = Some (Engine 2),
      pix2tex_initialized = True, easyocr_initialized = True\<rparr>"

definition loaded_OCRService :: OCRService where
  "loaded_OCRService =
     \<lparr>svc_pix2tex_model = Some (Engine 1), svc_easyocr_reader = Some (Engine 2)\<rparr>"

text \<open>The reports of the batch runner on the directories \<open>d\<close>, \<open>n\<close> and \<open>c\<close>.\<close>

definition no_content_entry :: "string \<Rightarrow> error_entry" where
  "no_content_entry fname = \<lparr>err_file = py fname, err_error = Some (py ''No content found'')\<rparr>"

definition demo_report :: batch_report where
  "demo_report =
     \<lparr>results = [(py ''digit.png'', py ''7''),
                 (py ''dot.png'', py ''[ERROR: No content found]''),
                 (py ''formula.png'', py ''x^2'')],
      count_results = 3, success_count = 2, simple_count = 1, complex_count = 1,
      errors = [no_content_entry ''dot.png'']\<rparr>"

definition nested_report :: batch_report where
  "nested_report =
     \<lparr>results = [(py ''z.png'', py ''[ERROR: No content found]''),
                 (py ''a.png'', py ''[ERROR: No content found]'')],
      count_results = 2, success_count = 0, simple_count = 0, complex_count = 0,
      errors = [no_content_entry ''z.png'', no_content_entry ''a.png'']\<rparr>"

definition collision_report :: batch_report where
  "collision_report =
     \<lparr>results = [(py ''x.png'', py ''[ERROR: No content found]'')],
      count_results = 1, success_count = - 1, simple_count = 0, complex_count = 0,
      errors = [no_content_entry ''x.png'', no_content_entry ''x.png'']\<rparr>"

section \<open>Properties\<close>

subsection \<open>The scan of \<open>crop_to_content\<close>\<close>

lemma fold_invariant:
  "(\<And>x b. x \<in> set xs \<Longrightarrow> P b \<Longrightarrow> P (f x b)) \<Longrightarrow> P b \<Longrightarrow> P (fold f xs b)"
  by (induction xs arbitrary: b) auto

lemma content_bounds_single_row:
  assumes dark: "\<And>x y. 0 \<le> x \<Longrightarrow> x < size_w img \<Longrightarrow> 0 \<le> y \<Longrightarrow> y < size_h img \<Longrightarrow>
                   pixels img (x, y) < threshold \<Longrightarrow> y = y0"
    and y0: "0 \<le> y0" "y0 \<le> size_h img"
  shows "row_inv y0 (content_bounds img threshold)"
  unfolding content_bounds_def
proof (rule fold_invariant)
  show "row_inv y0 (size_w img, size_h img, 0, 0)"
    using y0 by (simp add: row_inv_def)
next
  fix y b
  assume y: "y \<in> set [0..size_h img - 1]" and b: "row_inv y0 b"
  show "row_inv y0 (fold (scan_pixel img threshold y) [0..size_w img - 1] b)"
  proof (rule fold_invariant)
    show "row_inv y0 b" by (rule b)
  next
    fix x c
    assume x: "x \<in> set [0..size_w img - 1]" and c: "row_inv y0 c"
    show "row_inv y0 (scan_pixel img threshold y x c)"
    proof (cases "pixels img (x, y) < threshold")
      case True
      with x y dark have "y = y0" by auto
      with c True show ?thesis
        by (auto simp: scan_pixel_def row_inv_def split: prod.splits)
    next
      case False
      with c show ?thesis by (simp add: scan_pixel_def split: prod.splits)
    qed
  qed
qed

lemma content_bounds_single_col:
  assumes dark: "\<And>x y. 0 \<le> x \<Longrightarrow> x < size_w img \<Longrightarrow> 0 \<le> y \<Longrightarrow> y < size_h img \<Longrightarrow>
                   pixels img (x, y) < threshold \<Longrightarrow> x = x0"
    and x0: "0 \<le> x0" "x0 \<le> size_w img"
  shows "col_inv x0 (content_bounds img threshold)"
  unfolding content_bounds_def
proof (rule fold_invariant)
  show "col_inv x0 (size_w img, size_h img, 0, 0)"
    using x0 by (simp add: col_inv_def)
next
  fix y b
  assume y: "y \<in> set [0..size_h img - 1]" and b: "col_inv x0 b"
  show "col_inv x0 (fold (scan_pixel img threshold y) [0..size_w img - 1] b)"
  proof (rule fold_invariant)
    show "col_inv x0 b" by (rule b)
  next
    fix x c
    assume x: "x \<in> set [0..size_w img - 1]" and c: "col_inv x0 c"
    show "col_inv x0 (scan_pixel img threshold y x c)"
    proof (cases "pixels img (x, y) < threshold")
      case True
      with x y dark have "x = x0" by auto
      with c True show ?thesis
        by (auto simp: scan_pixel_def col_inv_def split: prod.splits)
    next
      case False
      with c show ?thesis by (simp add: scan_pixel_def split: prod.splits)
    qed
  qed
qed


subsection \<open>The selection of the text engine's region\<close>

lemma last_insort_key:
  "sorted (map f zs) \<Longrightarrow>
   last (insort_key f y zs) = (if zs = [] \<or> f (last zs) < f y then y else last zs)"
proof (induction zs)
  case Nil
  then show ?case by simp
next
  case (Cons z zs)
  show ?case
  proof (cases "f y \<le> f z")
    case True
    have "f z \<le> f (last (z # zs))"
      using Cons.prems by (cases zs) auto
    with True show ?thesis by auto
  next
    case False
    have s: "sorted (map f zs)" using Cons.prems by simp
    have ne: "insort_key f y zs \<noteq> []" by (cases zs) auto
    from False have "last (insort_key f y (z # zs)) = last (insort_key f y zs)"
      using ne by simp
    also have "\<dots> = (if zs = [] \<or> f (last zs) < f y then y else last zs)"
      by (rule Cons.IH[OF s])
    finally show ?thesis using False by auto
  qed
qed

lemma last_sort_key_decomp:
  "ys \<noteq> [] \<Longrightarrow>
   \<exists>a r b. ys = a @ r # b \<and> last (sort_key f ys) = r
           \<and> (\<forall>q\<in>set a. f q \<le> f r) \<and> (\<forall>q\<in>set b. f q < f r)"
proof (induction ys)
  case Nil
  then show ?case by simp
next
  case (Cons y ys)
  show ?case
  proof (cases "ys = []")
    case True
    then have "y # ys = [] @ y # [] \<and> last (sort_key f (y # ys)) = y" by simp
    then show ?thesis by (metis empty_iff list.set(1))
  next
    case False
    from Cons.IH[OF False] obtain a r b where
      d: "ys = a @ r # b" and l: "last (sort_key f ys) = r"
      and a: "\<forall>q\<in>set a. f q \<le> f r" and b: "\<forall>q\<in>set b. f q < f r"
      by blast
    have sk: "sort_key f (y # ys) = insort_key f y (sort_key f ys)"
      by (simp add: sort_key_def)
    have ne: "sort_key f ys \<noteq> []" using False by (metis length_sort list.size(3) length_0_conv)
    have lst: "last (sort_key f (y # ys)) = (if f r < f y then y else r)"
      unfolding sk using last_insort_key[of f "sort_key f ys" y] ne l by simp
    show ?thesis
    proof (cases "f r < f y")
      case True
      have "\<forall>q\<in>set ys. f q < f y"
        using d a b True by auto
      with lst True have "y # ys = [] @ y # ys \<and> last (sort_key f (y # ys)) = y
          \<and> (\<forall>q\<in>set []. f q \<le> f y) \<and> (\<forall>q\<in>set ys. f q < f y)" by simp
      then show ?thesis by blast
    next
      case False
      with lst d a b have "y # ys = (y # a) @ r # b \<and> last (sort_key f (y # ys)) = r
          \<and> (\<forall>q\<in>set (y # a). f q \<le> f r) \<and> (\<forall>q\<in>set b. f q < f r)" by auto
      then show ?thesis by blast
    qed
  qed
qed

lemma hd_sort_reverse_decomp:
  assumes "xs \<noteq> []"
  shows "\<exists>pre r post. xs = pre @ r # post \<and> hd (sort_reverse f xs) = r
           \<and> (\<forall>q\<in>set pre. f q < f r) \<and> (\<forall>q\<in>set post. f q \<le> f r)"
proof -
  from assms have "rev xs \<noteq> []" by simp
  from last_sort_key_decomp[OF this, of f] obtain a r b where
    d: "rev xs = a @ r # b" and l: "last (sort_key f (rev xs)) = r"
    and a: "\<forall>q\<in>set a. f q \<le> f r" and b: "\<forall>q\<in>set b. f q < f r"
    by blast
  have ne: "sort_key f (rev xs) \<noteq> []"
    using assms by (metis length_sort length_rev list.size(3) length_0_conv)
  have "xs = rev b @ r # rev a"
    using d by (metis rev_append rev.simps(2) rev_rev_ident append_Cons append_Nil append_assoc)
  moreover have "hd (sort_reverse f xs) = r"
    using l ne by (simp add: sort_reverse_def hd_rev)
  ultimately show ?thesis using a b
    by (metis set_rev)
qed

lemma insort_key_map_list:
  "insort_key f (g x) (map g zs) = map g (insort_key (\<lambda>a. f (g a)) x zs)"
  by (induction zs) auto

lemma sort_key_map_list:
  "sort_key f (map g xs) = map g (sort_key (\<lambda>a. f (g a)) xs)"
  by (induction xs) (auto simp: sort_key_def insort_key_map_list)

lemma sort_reverse_map_list:
  "sort_reverse f (map g xs) = map g (sort_reverse (\<lambda>a. f (g a)) xs)"
  by (simp add: sort_reverse_def rev_map sort_key_map_list)

lemma sort_reverse_Nil_iff: "sort_reverse f xs = [] \<longleftrightarrow> xs = []"
proof -
  have "length (sort_reverse f xs) = length xs" by (simp add: sort_reverse_def)
  then show ?thesis by (metis length_0_conv)
qed

lemma highest_confidence_text_decomp:
  assumes "result \<noteq> []"
  shows "\<exists>pre bbox t c post. result = pre @ (bbox, t, c) # post
           \<and> highest_confidence_text result = t
           \<and> (\<forall>q\<in>set pre. snd (snd q) < c) \<and> (\<forall>q\<in>set post. snd (snd q) \<le> c)"
proof -
  define conf where "conf = (\<lambda>r::region. snd (snd r))"
  from hd_sort_reverse_decomp[OF assms, of conf] obtain pre r post where
    d: "result = pre @ r # post" and h: "hd (sort_reverse conf result) = r"
    and p: "\<forall>q\<in>set pre. conf q < conf r"
    and q: "\<forall>q\<in>set post. conf q \<le> conf r"
    by blast
  have ne: "sort_reverse conf result \<noteq> []"
    using assms by (simp add: sort_reverse_Nil_iff)
  have "highest_confidence_text result = fst (hd (map snd (sort_reverse conf result)))"
    unfolding highest_confidence_text_def Let_def conf_def
    by (simp add: sort_reverse_map_list)
  also have "\<dots> = fst (snd r)"
    using h ne by (simp add: hd_map)
  finally have t: "highest_confidence_text result = fst (snd r)" .
  obtain bbox t c where r: "r = (bbox, t, c)" by (cases r) auto
  from d t p q r have "result = pre @ (bbox, t, c) # post
           \<and> highest_confidence_text result = t
           \<and> (\<forall>q\<in>set pre. snd (snd q) < c) \<and> (\<forall>q\<in>set post. snd (snd q) \<le> c)"
    by (simp add: conf_def)
  then show ?thesis by blast
qed


subsection \<open>Evaluation of the example inputs\<close>

lemmas example_defs =
  py_def demo_world_def demo_files_def nested_files_def collision_files_def
  unacceptable_pattern_def quote_def
  silent_world_def interrupted_world_def text_only_world_def
  dot_image_def digit_image_def formula_image_def blank_image_def demo_regions_def
  loaded_HybridOCR_def loaded_OCRService_def HybridOCR_init_def OCRService_init_def

lemmas crop_defs =
  crop_to_content_def content_bounds_def scan_pixel_def crop_def Let_def upto_rec1

subsection \<open>The states of a \<open>HybridOCR\<close> object\<close>

lemma loaded_consistent_init: "loaded_consistent HybridOCR_init"
  by (simp add: loaded_consistent_def HybridOCR_init_def)

lemma loaded_consistent_ensure_pix2tex:
  "loaded_consistent self \<Longrightarrow> loaded_consistent (snd (ensure_pix2tex wld self))"
  by (auto simp: loaded_consistent_def ensure_pix2tex_def split: sum.splits)

lemma loaded_consistent_ensure_easyocr:
  "loaded_consistent self \<Longrightarrow> loaded_consistent (snd (ensure_easyocr wld self))"
  by (auto simp: loaded_consistent_def ensure_easyocr_def split: sum.splits)

lemma ocr_simple_state: "snd (ocr_simple wld self img) = snd (ensure_easyocr wld self)"
  by (simp add: ocr_simple_def split: prod.splits sum.splits option.splits)

lemma ocr_complex_state: "snd (ocr_complex wld self img) = snd (ensure_pix2tex wld self)"
  by (simp add: ocr_complex_def split: prod.splits sum.splits option.splits)

lemma loaded_consistent_ocr_simple:
  "loaded_consistent self \<Longrightarrow> loaded_consistent (snd (ocr_simple wld self img))"
  by (simp add: ocr_simple_state loaded_consistent_ensure_easyocr)

lemma loaded_consistent_ocr_complex:
  "loaded_consistent self \<Longrightarrow> loaded_consistent (snd (ocr_complex wld self img))"
  by (simp add: ocr_complex_state loaded_consistent_ensure_pix2tex)

lemma loaded_consistent_ocr_image_try:
  assumes "loaded_consistent self"
  shows "loaded_consistent (snd (ocr_image_try wld self image_path))"
proof -
  have a: "\<And>img. loaded_consistent (snd (ocr_simple wld self img))"
    using assms by (rule loaded_consistent_ocr_simple)
  have b: "\<And>s img. loaded_consistent s \<Longrightarrow> loaded_consistent (snd (ocr_complex wld s img))"
    by (rule loaded_consistent_ocr_complex)
  show ?thesis
    unfolding ocr_image_try_def Let_def
    using assms a b
    by (auto split: sum.splits prod.splits option.splits if_splits)
      (metis snd_conv)+
qed

lemma ocr_image_state: "snd (ocr_image wld self image_path) = snd (ocr_image_try wld self image_path)"
  by (simp add: ocr_image_def split: prod.splits sum.splits)

lemma loaded_consistent_ocr_image:
  "loaded_consistent self \<Longrightarrow> loaded_consistent (snd (ocr_image wld self image_path))"
  by (simp add: ocr_image_state loaded_consistent_ocr_image_try)

lemma loaded_consistent_batch_loop:
  "loaded_consistent self \<Longrightarrow> loaded_consistent (snd (batch_loop wld fs self vars))"
proof (induction fs arbitrary: self vars)
  case Nil
  then show ?case by simp
next
  case (Cons f fs)
  have c: "loaded_consistent (snd (ocr_image wld self (path_str f)))"
    using Cons.prems by (rule loaded_consistent_ocr_image)
  show ?case
  proof (cases "ocr_image wld self (path_str f)")
    case (Pair r s1)
    with c have s1: "loaded_consistent s1" by simp
    show ?thesis
    proof (cases r)
      case (Inl e)
      with Pair s1 show ?thesis by simp
    next
      case (Inr res)
      with Pair Cons.IH[OF s1] show ?thesis by simp
    qed
  qed
qed

lemma cleanup_consistent: "loaded_consistent self \<Longrightarrow> cleanup self = HybridOCR_init"
  by (auto simp: loaded_consistent_def cleanup_def HybridOCR_init_def Let_def)

lemma loaded_consistent_cleanup:
  "loaded_consistent self \<Longrightarrow> loaded_consistent (cleanup self)"
  by (simp add: cleanup_consistent loaded_consistent_init)

lemma loaded_consistent_ocr_directory:
  assumes "loaded_consistent self"
  shows "loaded_consistent (snd (ocr_directory wld self directory pattern auto_cleanup))"
proof (cases "glob wld directory pattern")
  case (Inl e)
  with assms show ?thesis by (simp add: ocr_directory_def)
next
  case (Inr fs)
  let ?loop = "batch_loop wld (sort fs) self ([], [], 0, 0)"
  obtain r s1 where l: "?loop = (r, s1)" by (cases ?loop) auto
  have "loaded_consistent (snd ?loop)"
    using assms by (rule loaded_consistent_batch_loop)
  with l have "loaded_consistent s1" by simp
  with assms l Inr show ?thesis
    by (cases r) (simp_all add: ocr_directory_def Let_def loaded_consistent_cleanup)
qed

lemma cleanup_cleanup: "cleanup (cleanup self) = cleanup self"
  by (simp add: cleanup_def Let_def)

lemma cleanup_init: "cleanup HybridOCR_init = HybridOCR_init"
  by (simp add: cleanup_def HybridOCR_init_def)

lemma loaded_HybridOCR_reached:
  "snd (ocr_directory demo_world HybridOCR_init (py ''d'') (py ''*.png'') False) = loaded_HybridOCR"
  by (simp add: example_defs crop_defs ocr_directory_def ocr_image_def ocr_image_try_def
      ocr_simple_def ocr_complex_def ensure_easyocr_def ensure_pix2tex_def
      is_simple_content_def highest_confidence_text_def sort_reverse_def strip_def isspace_def
      path_str_def path_name_def tally_def make_report_def format_opt_def)

lemmas run_defs =
  ocr_image_def ocr_image_try_def ocr_simple_def ocr_complex_def
  ensure_easyocr_def ensure_pix2tex_def
  svc_ocr_image_def svc_ocr_image_try_def svc_ocr_simple_def svc_ocr_complex_def
  is_simple_content_def highest_confidence_text_def sort_reverse_def strip_def isspace_def


lemma ocr_simple_demo_regions:
  "fst (ocr_simple demo_world HybridOCR_init digit_image) = Inr (py ''7'')"
  by (simp add: example_defs run_defs)

subsection \<open>One image\<close>

lemma crop_digit:
  "crop_to_content demo_world (py ''d/digit.png'') 20 250
     = Inr (Some (crop digit_image (0, 0, 4, 4)), (1, 1, 4, 4))"
  by (simp add: example_defs crop_defs)

lemma crop_to_content_world_update [simp]:
  "crop_to_content (wld\<lparr>readtext := r\<rparr>) = crop_to_content wld"
  "crop_to_content (wld\<lparr>pix2tex_call := c\<rparr>) = crop_to_content wld"
  "crop_to_content (wld\<lparr>glob := g\<rparr>) = crop_to_content wld"
  "crop_to_content (wld\<lparr>PIX2TEX_AVAILABLE := b\<rparr>) = crop_to_content wld"
  by (simp_all add: crop_to_content_def fun_eq_iff)

lemma one_by_one_simple: "is_simple_content 1 1 5000 80"
  by (simp add: is_simple_content_def)


lemma ocr_image_never_raises_Exception:
  "isinstance_Exception e \<Longrightarrow> fst (ocr_image wld self p) \<noteq> Inl e"
  by (auto simp: ocr_image_def split: prod.splits sum.splits if_splits)

lemma svc_ocr_image_never_raises_Exception:
  "isinstance_Exception e \<Longrightarrow> svc_ocr_image wld svc p \<noteq> Inl e"
  by (auto simp: svc_ocr_image_def split: sum.splits if_splits)


subsection \<open>The batch loop\<close>

lemma tally_keys:
  "map fst (fst (tally fname result (res, errs, sn, cn)))
     = (if fname \<in> set (map fst res) then map fst res else map fst res @ [fname])"
  by (simp add: tally_def update_keys del: set_map)

lemma tally_errors:
  "fst (snd (tally fname result (res, errs, sn, cn)))
     = (if success result then errs else errs @ [\<lparr>err_file = fname, err_error = error result\<rparr>])"
  by (simp add: tally_def)

lemma loop_adds_refl: "loop_adds [] vars vars"
  by (cases vars) (simp add: loop_adds_def)

lemma loop_adds_step:
  assumes "loop_adds fs (tally (path_name f) result vars) vars'"
  shows "loop_adds (f # fs) vars vars'"
proof -
  obtain res errs sn cn where v: "vars = (res, errs, sn, cn)" by (cases vars) auto
  obtain res1 errs1 sn1 cn1 where t: "tally (path_name f) result vars = (res1, errs1, sn1, cn1)"
    by (cases "tally (path_name f) result vars") auto
  obtain res' errs' sn' cn' where v': "vars' = (res', errs', sn', cn')" by (cases vars') auto
  have k: "map fst res1
      = (if path_name f \<in> set (map fst res) then map fst res else map fst res @ [path_name f])"
    using tally_keys[of "path_name f" result res errs sn cn] t v by simp
  have e: "errs1 = (if success result then errs
                    else errs @ [\<lparr>err_file = path_name f, err_error = error result\<rparr>])"
    using tally_errors[of "path_name f" result res errs sn cn] t v by simp
  from assms t v' obtain es where
    es: "errs' = errs1 @ es" "subseq (map err_file es) (map path_name fs)"
    and d: "distinct (map fst res1 @ map path_name fs) \<Longrightarrow>
              map fst res' = map fst res1 @ map path_name fs
              \<and> int (length res') - int (length errs')
                  = int (length res1) - int (length errs1) + int (length fs) - int (length es)"
    by (auto simp: loop_adds_def)
  define es0 where "es0 = (if success result then []
                           else [\<lparr>err_file = path_name f, err_error = error result\<rparr>]) @ es"
  have a: "errs' = errs @ es0" using es(1) e by (simp add: es0_def)
  have b: "subseq (map err_file es0) (map path_name (f # fs))"
    using es(2) by (auto simp: es0_def)
  have c: "map fst res' = map fst res @ map path_name (f # fs)
           \<and> int (length res') - int (length errs')
                = int (length res) - int (length errs) + int (length (f # fs)) - int (length es0)"
    if dd: "distinct (map fst res @ map path_name (f # fs))"
  proof -
    from dd have nin: "path_name f \<notin> set (map fst res)" by auto
    with k have k': "map fst res1 = map fst res @ [path_name f]" by simp
    then have l: "length res1 = length res + 1"
      by (metis length_map length_append_singleton Suc_eq_plus1)
    from dd k' have "distinct (map fst res1 @ map path_name fs)" by simp
    from d[OF this] k' l e show ?thesis by (auto simp: es0_def)
  qed
  show ?thesis
    unfolding loop_adds_def v v' using a b c by auto
qed

lemma batch_loop_adds:
  "batch_loop wld fs self vars = (Inr vars', self') \<Longrightarrow> loop_adds fs vars vars'"
proof (induction fs arbitrary: self vars)
  case Nil
  then show ?case by (simp add: loop_adds_refl)
next
  case (Cons f fs)
  show ?case
  proof (cases "ocr_image wld self (path_str f)")
    case (Pair r s1)
    show ?thesis
    proof (cases r)
      case (Inl e)
      with Pair Cons.prems show ?thesis by simp
    next
      case (Inr result)
      with Pair Cons.prems
      have "batch_loop wld fs s1 (tally (path_name f) result vars) = (Inr vars', self')"
        by simp
      from Cons.IH[OF this] show ?thesis by (rule loop_adds_step)
    qed
  qed
qed

lemma svc_batch_loop_adds:
  "svc_batch_loop wld fs svc vars = Inr vars' \<Longrightarrow> loop_adds fs vars vars'"
proof (induction fs arbitrary: vars)
  case Nil
  then show ?case by (simp add: loop_adds_refl)
next
  case (Cons f fs)
  show ?case
  proof (cases "svc_ocr_image wld svc (path_str f)")
    case (Inl e)
    with Cons.prems show ?thesis by simp
  next
    case (Inr result)
    with Cons.prems
    have "svc_batch_loop wld fs svc (tally (path_name f) result vars) = Inr vars'"
      by simp
    from Cons.IH[OF this] show ?thesis by (rule loop_adds_step)
  qed
qed

subsection \<open>The enumeration of the file system\<close>

lemma glob_update_fields:
  "PIX2TEX_AVAILABLE (wld\<lparr>glob := g\<rparr>) = PIX2TEX_AVAILABLE wld"
  "EASYOCR_AVAILABLE (wld\<lparr>glob := g\<rparr>) = EASYOCR_AVAILABLE wld"
  "LatexOCR (wld\<lparr>glob := g\<rparr>) = LatexOCR wld"
  "easyocr_Reader (wld\<lparr>glob := g\<rparr>) = easyocr_Reader wld"
  "readtext (wld\<lparr>glob := g\<rparr>) = readtext wld"
  "pix2tex_call (wld\<lparr>glob := g\<rparr>) = pix2tex_call wld"
  "path_exists (wld\<lparr>glob := g\<rparr>) = path_exists wld"
  by simp_all

lemma glob_update_one_image:
  "ensure_easyocr (wld\<lparr>glob := g\<rparr>) self = ensure_easyocr wld self"
  "ensure_pix2tex (wld\<lparr>glob := g\<rparr>) self = ensure_pix2tex wld self"
  "ocr_simple (wld\<lparr>glob := g\<rparr>) self img = ocr_simple wld self img"
  "ocr_complex (wld\<lparr>glob := g\<rparr>) self img = ocr_complex wld self img"
  "svc_ocr_simple (wld\<lparr>glob := g\<rparr>) svc img = svc_ocr_simple wld svc img"
  "svc_ocr_complex (wld\<lparr>glob := g\<rparr>) svc img = svc_ocr_complex wld svc img"
  unfolding ensure_easyocr_def ensure_pix2tex_def ocr_simple_def ocr_complex_def
    svc_ocr_simple_def svc_ocr_complex_def glob_update_fields
  by (rule refl)+

lemma glob_update_ocr_image_try:
  "ocr_image_try (wld\<lparr>glob := g\<rparr>) self p = ocr_image_try wld self p"
  "svc_ocr_image_try (wld\<lparr>glob := g\<rparr>) svc p = svc_ocr_image_try wld svc p"
  unfolding ocr_image_try_def svc_ocr_image_try_def glob_update_one_image
    crop_to_content_world_update
  by (rule refl)+

lemma glob_update_ocr_image:
  "ocr_image (wld\<lparr>glob := g\<rparr>) self p = ocr_image wld self p"
  "svc_ocr_image (wld\<lparr>glob := g\<rparr>) svc p = svc_ocr_image wld svc p"
  by (simp_all add: ocr_image_def svc_ocr_image_def glob_update_ocr_image_try)

lemma glob_update_batch_loop:
  "batch_loop (wld\<lparr>glob := g\<rparr>) fs self vars = batch_loop wld fs self vars"
  by (induction fs arbitrary: self vars)
    (simp_all add: glob_update_ocr_image split: prod.splits sum.splits)

lemma glob_update_svc_batch_loop:
  "svc_batch_loop (wld\<lparr>glob := g\<rparr>) fs svc vars = svc_batch_loop wld fs svc vars"
  by (induction fs arbitrary: vars)
    (simp_all add: glob_update_ocr_image split: sum.splits)

lemma sort_enumeration:
  fixes fs :: "path list"
  assumes "mset gs = mset fs"
  shows "sort gs = sort fs"
proof (rule properties_for_sort)
  show "mset (sort fs) = mset gs" using assms by simp
  show "sorted (sort fs)" by simp
qed

lemma append_le_append: "(ps @ xs \<le> ps @ ys) = (xs \<le> (ys :: 'a::linorder list))"
  by (induction ps) simp_all

lemma sorted_names_same_directory:
  fixes fs :: "path list"
  assumes "\<forall>p\<in>set fs. \<exists>n. p = parent @ [n]"
  shows "sorted (map path_name (sort fs))"
proof -
  have "sorted_wrt (\<lambda>p q. path_name p \<le> path_name q) (sort fs)"
  proof (rule sorted_wrt_mono_rel[where P = "(\<le>)"])
    fix p q
    assume "p \<in> set (sort fs)" "q \<in> set (sort fs)" and le: "p \<le> q"
    then have "p \<in> set fs" "q \<in> set fs" by simp_all
    with assms obtain n m where pq: "p = parent @ [n]" "q = parent @ [m]"
      by blast
    with le have "[n] \<le> [m]" by (simp add: append_le_append)
    then have "n \<le> m" by auto
    with pq show "path_name p \<le> path_name q" by (simp add: path_name_def)
  next
    show "sorted_wrt (\<le>) (sort fs)" using sorted_sort[of fs] by simp
  qed
  then show ?thesis by (simp add: sorted_map)
qed

lemma sorted_subseq:
  fixes xs :: "'a::linorder list"
  shows "subseq xs ys \<Longrightarrow> sorted ys \<Longrightarrow> sorted xs"
  by (auto simp: subseq_conv_nths sorted_nths)

lemma make_report_fields:
  "results (make_report (res, errs, sn, cn)) = res"
  "errors (make_report (res, errs, sn, cn)) = errs"
  "count_results (make_report (res, errs, sn, cn)) = int (length res)"
  "success_count (make_report (res, errs, sn, cn)) = int (length res) - int (length errs)"
  by (simp_all add: make_report_def)

lemma report_of_loop:
  assumes "loop_adds fs ([], [], 0, 0) vars"
  shows "subseq (map err_file (errors (make_report vars))) (map path_name fs)"
    and "distinct (map path_name fs) \<Longrightarrow> map fst (results (make_report vars)) = map path_name fs"
    and "distinct (map path_name fs) \<Longrightarrow> count_results (make_report vars) = int (length fs)"
    and "success_count (make_report vars)
           = count_results (make_report vars) - int (length (errors (make_report vars)))"
proof -
  obtain res errs sn cn where v: "vars = (res, errs, sn, cn)" by (cases vars) auto
  from assms v obtain es where es: "errs = es" "subseq (map err_file es) (map path_name fs)"
    and d: "distinct (map path_name fs) \<longrightarrow> map fst res = map path_name fs"
    by (auto simp: loop_adds_def)
  show "subseq (map err_file (errors (make_report vars))) (map path_name fs)"
    using es v by (simp add: make_report_fields)
  show k: "map fst (results (make_report vars)) = map path_name fs"
    if "distinct (map path_name fs)"
    using d that v by (simp add: make_report_fields)
  show "count_results (make_report vars) = int (length fs)" if "distinct (map path_name fs)"
  proof -
    have "length (map fst res) = length (map path_name fs)" using d that by simp
    then show ?thesis using v by (simp add: make_report_fields)
  qed
  show "success_count (make_report vars)
           = count_results (make_report vars) - int (length (errors (make_report vars)))"
    using v by (simp add: make_report_fields)
qed

lemma ocr_directory_listing:
  assumes "fst (ocr_directory wld self directory pattern ac) = Inr rep
           \<or> svc_ocr_directory wld svc directory pattern = Inr rep"
  shows "path_exists wld directory \<and> (\<exists>fs. glob wld directory pattern = Inr fs)"
  using assms
  by (cases "glob wld directory pattern")
     (auto simp: ocr_directory_def svc_ocr_directory_def split: if_splits)

lemma ocr_directory_glob_raises:
  assumes "path_exists wld directory" and "glob wld directory pattern = Inl e"
  shows "ocr_directory wld self directory pattern ac = (Inl e, self)"
    and "svc_ocr_directory wld svc directory pattern = Inl e"
  using assms by (simp_all add: ocr_directory_def svc_ocr_directory_def)

lemma ocr_directory_report:
  assumes "glob wld directory pattern = Inr fs"
    and "fst (ocr_directory wld self directory pattern ac) = Inr rep"
  shows "rep = empty_report \<and> fs = []
         \<or> (\<exists>vars. rep = make_report vars \<and> loop_adds (sort fs) ([], [], 0, 0) vars)"
proof (cases "sort fs = []")
  case True
  then have "fs = []"
    by (metis length_sort length_0_conv)
  with assms show ?thesis
    by (auto simp: ocr_directory_def split: if_splits)
next
  case False
  obtain r s1 where b: "batch_loop wld (sort fs) self ([], [], 0, 0) = (r, s1)"
    by (cases "batch_loop wld (sort fs) self ([], [], 0, 0)") auto
  with assms False obtain vars where "r = Inr vars" "rep = make_report vars"
    by (cases r) (auto simp: ocr_directory_def Let_def split: if_splits)
  with b batch_loop_adds show ?thesis by blast
qed

lemma svc_ocr_directory_report:
  assumes "glob wld directory pattern = Inr fs"
    and "svc_ocr_directory wld svc directory pattern = Inr rep"
  shows "rep = empty_report \<and> fs = []
         \<or> (\<exists>vars. rep = make_report vars \<and> loop_adds (sort fs) ([], [], 0, 0) vars)"
proof (cases "sort fs = []")
  case True
  then have "fs = []"
    by (metis length_sort length_0_conv)
  with assms show ?thesis
    by (auto simp: svc_ocr_directory_def split: if_splits)
next
  case False
  with assms obtain vars where
    "svc_batch_loop wld (sort fs) svc ([], [], 0, 0) = Inr vars"
    "rep = make_report vars"
    by (cases "svc_batch_loop wld (sort fs) svc ([], [], 0, 0)")
       (auto simp: svc_ocr_directory_def Let_def split: if_splits)
  with svc_batch_loop_adds show ?thesis by blast
qed

lemma report_in_path_order:
  assumes "rep = empty_report \<and> fs = []
         \<or> (\<exists>vars. rep = make_report vars \<and> loop_adds (sort fs) ([], [], 0, 0) vars)"
  shows "subseq (map err_file (errors rep)) (map path_name (sort fs))"
    and "distinct (map path_name fs) \<Longrightarrow> map fst (results rep) = map path_name (sort fs)"
    and "distinct (map path_name fs) \<Longrightarrow> count_results rep = int (length fs)"
    and "success_count rep = count_results rep - int (length (errors rep))"
proof -
  have dm: "distinct (map path_name (sort fs))" if "distinct (map path_name fs)"
  proof -
    have "mset (map path_name (sort fs)) = mset (map path_name fs)" by simp
    from mset_eq_imp_distinct_iff[OF this] that show ?thesis by simp
  qed
  from assms show "subseq (map err_file (errors rep)) (map path_name (sort fs))"
    by (auto simp: empty_report_def report_of_loop(1))
  from assms show "map fst (results rep) = map path_name (sort fs)"
    if "distinct (map path_name fs)"
    using dm[OF that] by (auto simp: empty_report_def report_of_loop(2))
  from assms show "count_results rep = int (length fs)" if "distinct (map path_name fs)"
    using dm[OF that] report_of_loop(3)[of "sort fs"] by (auto simp: empty_report_def)
  from assms show "success_count rep = count_results rep - int (length (errors rep))"
    using report_of_loop(4) by (auto simp: empty_report_def)
qed

subsection \<open>Runs of the batch runner\<close>

lemmas batch_defs =
  ocr_directory_def svc_ocr_directory_def path_str_def path_name_def tally_def
  make_report_def format_opt_def empty_report_def cleanup_def
  demo_report_def nested_report_def collision_report_def no_content_entry_def

lemma demo_directory_run:
  "ocr_directory demo_world HybridOCR_init (py ''d'') (py ''*.png'') True
     = (Inr demo_report, HybridOCR_init)"
  "svc_ocr_directory demo_world loaded_OCRService (py ''d'') (py ''*.png'') = Inr demo_report"
  by (simp_all add: example_defs crop_defs run_defs batch_defs)

lemma nested_directory_run:
  "ocr_directory demo_world HybridOCR_init (py ''n'') (py ''*/*.png'') True
     = (Inr nested_report, HybridOCR_init)"
  "svc_ocr_directory demo_world loaded_OCRService (py ''n'') (py ''*/*.png'') = Inr nested_report"
  by (simp_all add: example_defs crop_defs run_defs batch_defs)

lemma loaded_consistent_loaded_HybridOCR: "loaded_consistent loaded_HybridOCR"
  by (simp add: loaded_consistent_def loaded_HybridOCR_def)

lemma interrupted_loop_state:
  "batch_loop interrupted_world (sort demo_files) HybridOCR_init ([], [], 0, 0)
     = (Inl KeyboardInterrupt, loaded_HybridOCR)"
  by (simp add: example_defs crop_defs run_defs batch_defs)

lemma collision_directory_run:
  "ocr_directory demo_world HybridOCR_init (py ''c'') (py ''*/*.png'') True
     = (Inr collision_report, HybridOCR_init)"
  "svc_ocr_directory demo_world loaded_OCRService (py ''c'') (py ''*/*.png'')
     = Inr collision_report"
  by (simp_all add: example_defs crop_defs run_defs batch_defs)

lemma refused_pattern_run:
  "ocr_directory demo_world loaded_HybridOCR (py ''d'') [] True
     = (Inl unacceptable_pattern, loaded_HybridOCR)"
  "svc_ocr_directory demo_world loaded_OCRService (py ''d'') [] = Inl unacceptable_pattern"
  by (simp_all add: ocr_directory_glob_raises demo_world_def py_def)

lemma one_entry_per_file_when_names_differ:
  assumes "glob wld directory pattern = Inr fs"
    and "distinct (map path_name fs)"
    and "fst (ocr_directory wld self directory pattern ac) = Inr rep
         \<or> svc_ocr_directory wld svc directory pattern = Inr rep"
  shows "map fst (results rep) = map path_name (sort fs)"
    and "count_results rep = int (length fs)"
    and "success_count rep = count_results rep - int (length (errors rep))"
proof -
  have r: "rep = empty_report \<and> fs = []
         \<or> (\<exists>vars. rep = make_report vars \<and> loop_adds (sort fs) ([], [], 0, 0) vars)"
    using assms(3) ocr_directory_report[OF assms(1)] svc_ocr_directory_report[OF assms(1)]
    by blast
  show "map fst (results rep) = map path_name (sort fs)"
    by (rule report_in_path_order(2)[OF r assms(2)])
  show "count_results rep = int (length fs)"
    by (rule report_in_path_order(3)[OF r assms(2)])
  show "success_count rep = count_results rep - int (length (errors rep))"
    by (rule report_in_path_order(4)[OF r])
qed

subsection \<open>The entries of a report\<close>

lemma tally_entry:
  "map_of (fst (tally fname result vars)) k
     = (if k = fname then Some (entry_of result) else map_of (fst vars) k)"
  by (cases vars) (simp add: tally_def update_conv entry_of_def)

lemma tally_error_entries:
  "set (fst (snd (tally fname result vars)))
     = (if success result then set (fst (snd vars))
        else insert \<lparr>err_file = fname, err_error = error result\<rparr> (set (fst (snd vars))))"
  by (cases vars) (simp add: tally_def)

lemma entries_recorded_Nil: "entries_recorded [] [] vars vars"
  by (simp add: entries_recorded_def)

lemma entries_recorded_Cons:
  assumes "entries_recorded fs rs (tally (path_name f) r vars) vars'"
    and "path_name f \<notin> path_name ` set fs"
  shows "entries_recorded (f # fs) (r # rs) vars vars'"
proof -
  let ?v1 = "tally (path_name f) r vars"
  from assms(1) have len: "length rs = length fs"
    and each: "\<And>i. i < length fs \<Longrightarrow>
            map_of (fst vars') (path_name (fs ! i)) = Some (entry_of (rs ! i))
            \<and> (\<not> success (rs ! i) \<longrightarrow>
                 \<lparr>err_file = path_name (fs ! i), err_error = error (rs ! i)\<rparr>
                   \<in> set (fst (snd vars')))"
    and keep: "\<And>k. k \<notin> path_name ` set fs \<Longrightarrow> map_of (fst vars') k = map_of (fst ?v1) k"
    and errs: "set (fst (snd ?v1)) \<subseteq> set (fst (snd vars'))"
    by (simp_all add: entries_recorded_def)
  have first: "map_of (fst vars') (path_name f) = Some (entry_of r)"
    using keep[OF assms(2)] by (simp add: tally_entry)
  have first_err: "\<lparr>err_file = path_name f, err_error = error r\<rparr> \<in> set (fst (snd vars'))"
    if "\<not> success r"
    using errs that by (auto simp: tally_error_entries)
  have all: "map_of (fst vars') (path_name ((f # fs) ! i)) = Some (entry_of ((r # rs) ! i))
            \<and> (\<not> success ((r # rs) ! i) \<longrightarrow>
                 \<lparr>err_file = path_name ((f # fs) ! i), err_error = error ((r # rs) ! i)\<rparr>
                   \<in> set (fst (snd vars')))"
    if "i < length (f # fs)" for i
  proof (cases i)
    case 0
    with first first_err show ?thesis by simp
  next
    case (Suc j)
    with that each[of j] show ?thesis by simp
  qed
  have keep': "map_of (fst vars') k = map_of (fst vars) k" if "k \<notin> path_name ` set (f # fs)" for k
    using keep[of k] that by (simp add: tally_entry)
  have errs': "set (fst (snd vars)) \<subseteq> set (fst (snd vars'))"
    using errs by (auto simp: tally_error_entries split: if_splits)
  show ?thesis
    unfolding entries_recorded_def using len all keep' errs' by simp
qed

lemma batch_loop_entries:
  "batch_loop wld fs self vars = (Inr vars', self') \<Longrightarrow> distinct (map path_name fs) \<Longrightarrow>
   entries_recorded fs (loop_results wld fs self) vars vars'"
proof (induction fs arbitrary: self vars)
  case Nil
  then show ?case by (simp add: entries_recorded_Nil)
next
  case (Cons f fs)
  show ?case
  proof (cases "ocr_image wld self (path_str f)")
    case (Pair r s1)
    show ?thesis
    proof (cases r)
      case (Inl e)
      with Pair Cons.prems show ?thesis by simp
    next
      case (Inr result)
      with Pair Cons.prems
      have l: "batch_loop wld fs s1 (tally (path_name f) result vars) = (Inr vars', self')"
        and d: "distinct (map path_name fs)" and n: "path_name f \<notin> path_name ` set fs"
        by simp_all
      from entries_recorded_Cons[OF Cons.IH[OF l d] n] Pair Inr show ?thesis by simp
    qed
  qed
qed

lemma svc_batch_loop_entries:
  "svc_batch_loop wld fs svc vars = Inr vars' \<Longrightarrow> distinct (map path_name fs) \<Longrightarrow>
   entries_recorded fs (map (\<lambda>f. projr (svc_ocr_image wld svc (path_str f))) fs) vars vars'"
proof (induction fs arbitrary: vars)
  case Nil
  then show ?case by (simp add: entries_recorded_Nil)
next
  case (Cons f fs)
  show ?case
  proof (cases "svc_ocr_image wld svc (path_str f)")
    case (Inl e)
    with Cons.prems show ?thesis by simp
  next
    case (Inr result)
    with Cons.prems
    have l: "svc_batch_loop wld fs svc (tally (path_name f) result vars) = Inr vars'"
      and d: "distinct (map path_name fs)" and n: "path_name f \<notin> path_name ` set fs"
      by simp_all
    from entries_recorded_Cons[OF Cons.IH[OF l d] n] Inr show ?thesis by simp
  qed
qed

lemma report_vars:
  "(results (make_report vars), errors (make_report vars),
    simple_count (make_report vars), complex_count (make_report vars)) = vars"
  by (cases vars) (simp add: make_report_def)

lemma distinct_names_sort:
  fixes fs :: "path list"
  assumes "distinct (map path_name fs)"
  shows "distinct (map path_name (sort fs))"
proof -
  have "mset (map path_name (sort fs)) = mset (map path_name fs)" by simp
  from mset_eq_imp_distinct_iff[OF this] assms show ?thesis by simp
qed

lemma ocr_directory_entries:
  assumes "glob wld directory pattern = Inr fs"
    and "distinct (map path_name fs)"
    and "ocr_directory wld self directory pattern ac = (Inr rep, self')"
  shows "entries_recorded (sort fs) (loop_results wld (sort fs) self) ([], [], 0, 0)
           (results rep, errors rep, simple_count rep, complex_count rep)"
proof (cases "sort fs = []")
  case True
  with assms(1,3) have "rep = empty_report"
    by (auto simp: ocr_directory_def split: if_splits)
  with True show ?thesis by (simp add: entries_recorded_def empty_report_def)
next
  case False
  let ?loop = "batch_loop wld (sort fs) self ([], [], 0, 0)"
  obtain r s1 where l: "?loop = (r, s1)" by (cases ?loop) auto
  with assms(1,3) False obtain vars where v: "r = Inr vars" "rep = make_report vars"
    by (cases r) (auto simp: ocr_directory_def Let_def split: if_splits)
  from batch_loop_entries[OF _ distinct_names_sort[OF assms(2)]] l v(1)
  have "entries_recorded (sort fs) (loop_results wld (sort fs) self) ([], [], 0, 0) vars"
    by simp
  then show ?thesis by (simp add: v(2) report_vars)
qed

lemma svc_ocr_directory_entries:
  assumes "glob wld directory pattern = Inr fs"
    and "distinct (map path_name fs)"
    and "svc_ocr_directory wld svc directory pattern = Inr rep"
  shows "entries_recorded (sort fs)
           (map (\<lambda>f. projr (svc_ocr_image wld svc (path_str f))) (sort fs))
           ([], [], 0, 0)
           (results rep, errors rep, simple_count rep, complex_count rep)"
proof (cases "sort fs = []")
  case True
  with assms(1,3) have "rep = empty_report"
    by (auto simp: svc_ocr_directory_def split: if_splits)
  with True show ?thesis by (simp add: entries_recorded_def empty_report_def)
next
  case False
  with assms(1,3) obtain vars where
    l: "svc_batch_loop wld (sort fs) svc ([], [], 0, 0) = Inr vars"
    and v: "rep = make_report vars"
    by (cases "svc_batch_loop wld (sort fs) svc ([], [], 0, 0)")
       (auto simp: svc_ocr_directory_def Let_def split: if_splits)
  from svc_batch_loop_entries[OF l distinct_names_sort[OF assms(2)]]
  show ?thesis by (simp add: v report_vars)
qed

subsection \<open>Threads of the service\<close>

lemma filter_length_update:
  "i < length ts \<Longrightarrow>
   length (filter P (ts[i := t])) + (if P (ts ! i) then 1 else 0)
     = length (filter P ts) + (if P t then 1 else 0)"
proof (induction ts arbitrary: i)
  case Nil
  then show ?case by simp
next
  case (Cons a ts)
  show ?case
  proof (cases i)
    case 0
    then show ?thesis by simp
  next
    case (Suc j)
    with Cons.prems have "j < length ts" by simp
    from Cons.IH[OF this] Suc show ?thesis by simp
  qed
qed

lemma batch_shaped_ocr_batch: "batch_shaped (ocr_batch wld directory pattern)"
  by (auto simp: batch_shaped_def ocr_batch_def butlast_append split: sum.splits)

lemma not_critical_ocr_batch: "\<not> critical (ocr_batch wld directory pattern)"
  by (simp add: critical_def ocr_batch_def)

lemma lock_inv_initial:
  "lock_inv (False, map (\<lambda>(directory, pattern). ocr_batch wld directory pattern) requests)"
  by (auto simp: lock_inv_def batch_shaped_ocr_batch not_critical_ocr_batch filter_empty_conv)

lemma take_step_shape:
  assumes "batch_shaped t" and "take_step locked t = Some (locked', t')"
  shows "batch_shaped t'"
    and "critical t \<Longrightarrow> \<not> critical t' \<Longrightarrow> \<not> locked'"
    and "critical t \<Longrightarrow> critical t' \<Longrightarrow> locked' = locked"
    and "\<not> critical t \<Longrightarrow> \<not> locked \<and> locked' \<and> critical t'"
proof -
  obtain s where t: "t = s # t'"
    using assms(2) by (cases "(locked, t)" rule: take_step.cases) (auto split: if_splits)
  have a: "Acquire_lock \<notin> set t'" using assms(1) t by (simp add: batch_shaped_def)
  have l: "last t = Release_lock" and r: "Release_lock \<notin> set (butlast t)"
    using assms(1) t by (simp_all add: batch_shaped_def)
  show "batch_shaped t'"
    using a l r t by (cases t') (auto simp: batch_shaped_def split: if_splits)
  show "\<not> locked'" if "critical t" "\<not> critical t'"
  proof -
    from that(2) a have "t' = []" by (cases t') (auto simp: critical_def)
    with l t have "s = Release_lock" by simp
    with t assms(2) show ?thesis by simp
  qed
  show "locked' = locked" if "critical t" "critical t'"
  proof -
    from that(2) have "t' \<noteq> []" by (simp add: critical_def)
    with r t have "s \<noteq> Release_lock" by auto
    moreover from that(1) t have "s \<noteq> Acquire_lock" by (simp add: critical_def)
    ultimately show ?thesis using t assms(2) by (cases s) auto
  qed
  show "\<not> locked \<and> locked' \<and> critical t'" if "\<not> critical t"
  proof -
    from that t have s: "s = Acquire_lock" by (simp add: critical_def)
    with l t have "t' \<noteq> []" by auto
    with a have "critical t'" by (cases t') (auto simp: critical_def)
    with s t assms(2) show ?thesis by (auto split: if_splits)
  qed
qed

lemma lock_inv_step:
  assumes "lock_inv (locked, threads)" and "i < length threads"
    and "take_step locked (threads ! i) = Some (locked', t')"
  shows "lock_inv (locked', threads[i := t'])"
proof -
  let ?t = "threads ! i"
  have sh: "batch_shaped ?t" using assms(1,2) by (simp add: lock_inv_def)
  note S = take_step_shape[OF sh assms(3)]
  have all: "\<forall>t\<in>set (threads[i := t']). batch_shaped t"
    using assms(1) S(1) by (auto simp: lock_inv_def dest: set_update_subset_insert[THEN subsetD])
  have n: "length (filter critical threads) = (if locked then 1 else 0)"
    using assms(1) by (simp add: lock_inv_def)
  have u: "length (filter critical (threads[i := t'])) + (if critical ?t then 1 else 0)
             = length (filter critical threads) + (if critical t' then 1 else 0)"
    by (rule filter_length_update[OF assms(2)])
  have "length (filter critical (threads[i := t'])) = (if locked' then 1 else 0)"
  proof (cases "critical ?t")
    case True
    have pos: "0 < length (filter critical threads)"
      using True assms(2) by (auto simp: filter_empty_conv dest: nth_mem)
    with n have lk: "locked" by (simp split: if_splits)
    show ?thesis
    proof (cases "critical t'")
      case c: True
      with S(3)[OF True c] u n True show ?thesis by simp
    next
      case c: False
      with S(2)[OF True c] u n True lk show ?thesis by simp
    qed
  next
    case False
    with S(4)[OF False] u n show ?thesis by simp
  qed
  with all show ?thesis by (simp add: lock_inv_def)
qed

lemma lock_inv_run:
  "lock_inv st \<Longrightarrow> run_threads schedule st = Some st' \<Longrightarrow> lock_inv st'"
proof (induction schedule arbitrary: st)
  case Nil
  then show ?case by simp
next
  case (Cons i schedule)
  obtain locked threads where st: "st = (locked, threads)" by (cases st) auto
  from Cons.prems(2) st obtain locked' t' where
    i: "i < length threads" and s: "take_step locked (threads ! i) = Some (locked', t')"
    and r: "run_threads schedule (locked', threads[i := t']) = Some st'"
    by (auto split: if_splits option.splits)
  from lock_inv_step[OF _ i s] Cons.prems(1) st
  have "lock_inv (locked', threads[i := t'])" by simp
  from Cons.IH[OF this r] show ?case .
qed

lemma inside_imp_critical: "inside_ocr_image t \<Longrightarrow> critical t"
  by (cases t rule: inside_ocr_image.cases) (simp_all add: critical_def)

lemma filter_length_mono:
  "(\<And>x. P x \<Longrightarrow> Q x) \<Longrightarrow> length (filter P xs) \<le> length (filter Q xs)"
  by (induction xs) auto

lemma batches_exclude_each_other:
  assumes "run_threads schedule
             (False, map (\<lambda>(directory, pattern). ocr_batch wld directory pattern) requests)
           = Some (locked, threads)"
  shows "executions threads \<le> 1"
proof -
  from lock_inv_run[OF lock_inv_initial assms]
  have "length (filter critical threads) \<le> 1" by (simp add: lock_inv_def split: if_splits)
  moreover have "executions threads \<le> length (filter critical threads)"
    unfolding executions_def by (rule filter_length_mono) (rule inside_imp_critical)
  ultimately show ?thesis by simp
qed

section \<open>The claims\<close>

text \<open>
  C1. With the default thresholds (area threshold 5000, maximal dimension 80) the
  classification of the six boundary inputs is: (0,0) simple, (100,10) complex,
  (50,200) complex, (20,20) simple, (79,79) simple, (80,80) complex. At each of these
  inputs the quotient (10, 0.25, 1, 1, 1) is a binary floating-point number, so the
  rational quotient of the model is the value Python computes.
\<close>

theorem is_simple_content_boundary_cases:
  "is_simple_content 0 0 5000 80 = True
   \<and> is_simple_content 100 10 5000 80 = False
   \<and> is_simple_content 50 200 5000 80 = False
   \<and> is_simple_content 20 20 5000 80 = True
   \<and> is_simple_content 79 79 5000 80 = True
   \<and> is_simple_content 80 80 5000 80 = False"
  by (simp add: is_simple_content_def)

text \<open>
  C2. For an image whose content is classified simple, in either script: when the
  text engine returns \<open>t\<close> and \<open>t\<close> is empty after \<open>strip\<close>, the formula engine is
  called on the same crop, and when that call returns \<open>f\<close> the result reports the
  method \<open>easyocr+pix2tex\<close> and the text \<open>f\<close>; when \<open>t\<close> is not empty after \<open>strip\<close>,
  the result reports the method \<open>easyocr\<close> and the stripped text.
\<close>

theorem simple_content_escalation:
  assumes "crop_to_content wld image_path 20 250 = Inr (Some cropped, (cw, ch, pw, ph))"
    and "is_simple_content cw ch 5000 80"
  shows
    "(\<forall>t self1. ocr_simple wld self cropped = (Inr t, self1) \<longrightarrow>
        (if strip t = []
         then \<forall>f self2. ocr_complex wld self1 cropped = (Inr f, self2) \<longrightarrow>
                ocr_image wld self image_path
                  = (Inr (recognized image_path f ''easyocr+pix2tex'' (Some (cw, ch)) True), self2)
         else ocr_image wld self image_path
                = (Inr (recognized image_path (strip t) ''easyocr'' (Some (cw, ch)) True), self1)))
     \<and> (\<forall>t. svc_ocr_simple wld svc cropped = Inr t \<longrightarrow>
        (if strip t = []
         then \<forall>f. svc_ocr_complex wld svc cropped = Inr f \<longrightarrow>
                svc_ocr_image wld svc image_path
                  = Inr (recognized image_path f ''easyocr+pix2tex'' None True)
         else svc_ocr_image wld svc image_path
                = Inr (recognized image_path (strip t) ''easyocr'' None True)))"
  using assms
  by (simp add: ocr_image_def ocr_image_try_def svc_ocr_image_def svc_ocr_image_try_def
      recognized_def)

text \<open>
  The witness: the same image read by a text engine that returns blanks, and by one
  that returns the digit 7.
\<close>

theorem simple_content_escalation_witness:
  "ocr_image silent_world HybridOCR_init (py ''d/digit.png'')
     = (Inr (recognized (py ''d/digit.png'') (py ''x^2'') ''easyocr+pix2tex'' (Some (1, 1)) True),
        loaded_HybridOCR)
   \<and> svc_ocr_image silent_world loaded_OCRService (py ''d/digit.png'')
     = Inr (recognized (py ''d/digit.png'') (py ''x^2'') ''easyocr+pix2tex'' None True)
   \<and> fst (ocr_image demo_world HybridOCR_init (py ''d/digit.png''))
     = Inr (recognized (py ''d/digit.png'') (py ''7'') ''easyocr'' (Some (1, 1)) True)
   \<and> svc_ocr_image demo_world loaded_OCRService (py ''d/digit.png'')
     = Inr (recognized (py ''d/digit.png'') (py ''7'') ''easyocr'' None True)"
proof -
  let ?c = "crop digit_image (0, 0, 4, 4)"
  let ?s1 = "HybridOCR_init\<lparr>easyocr_reader := Some (Engine 2), easyocr_initialized := True\<rparr>"
  have cs: "crop_to_content silent_world (py ''d/digit.png'') 20 250
              = Inr (Some ?c, (1, 1, 4, 4))"
    using crop_digit by (simp add: silent_world_def)
  note S = simple_content_escalation[OF cs one_by_one_simple, of HybridOCR_init loaded_OCRService]
  note D = simple_content_escalation[OF crop_digit one_by_one_simple, of HybridOCR_init loaded_OCRService]
  have t1: "ocr_simple silent_world HybridOCR_init ?c = (Inr (py ''  ''), ?s1)"
    by (simp add: example_defs run_defs)
  have b: "strip (py ''  '') = []" by (simp add: py_def strip_def isspace_def)
  have f1: "ocr_complex silent_world ?s1 ?c = (Inr (py ''x^2''), loaded_HybridOCR)"
    by (simp add: example_defs run_defs)
  have t2: "svc_ocr_simple silent_world loaded_OCRService ?c = Inr (py ''  '')"
    by (simp add: example_defs run_defs)
  have f2: "svc_ocr_complex silent_world loaded_OCRService ?c = Inr (py ''x^2'')"
    by (simp add: example_defs run_defs)
  have t3: "ocr_simple demo_world HybridOCR_init ?c = (Inr (py ''7''), ?s1)"
    by (simp add: example_defs run_defs)
  have t4: "svc_ocr_simple demo_world loaded_OCRService ?c = Inr (py ''7'')"
    by (simp add: example_defs run_defs)
  have n: "strip (py ''7'') = py ''7''" "py ''7'' \<noteq> []"
    by (simp_all add: py_def strip_def isspace_def)
  from S t1 b f1 have a1: "ocr_image silent_world HybridOCR_init (py ''d/digit.png'')
     = (Inr (recognized (py ''d/digit.png'') (py ''x^2'') ''easyocr+pix2tex'' (Some (1, 1)) True),
        loaded_HybridOCR)"
    by (metis (full_types))
  from S t2 b f2 have a2: "svc_ocr_image silent_world loaded_OCRService (py ''d/digit.png'')
     = Inr (recognized (py ''d/digit.png'') (py ''x^2'') ''easyocr+pix2tex'' None True)"
    by (metis (full_types))
  from D t3 n have a3: "ocr_image demo_world HybridOCR_init (py ''d/digit.png'')
     = (Inr (recognized (py ''d/digit.png'') (py ''7'') ''easyocr'' (Some (1, 1)) True), ?s1)"
    by (metis (full_types))
  from D t4 n have a4: "svc_ocr_image demo_world loaded_OCRService (py ''d/digit.png'')
     = Inr (recognized (py ''d/digit.png'') (py ''7'') ''easyocr'' None True)"
    by (metis (full_types))
  from a1 a2 a3 a4 show ?thesis by simp
qed

text \<open>
  C3. The results of a run have one entry per file name, not per file. On the directory
  \<open>c\<close>, where the pattern \<open>*/*.png\<close> matches \<open>a/x.png\<close> and \<open>b/x.png\<close>, both scripts
  return one entry for two files: the count is 1, there are two error records, and
  the success count is -1. (When no two matching files share a name, the results hold
  one entry per file, the text or the sentinel of that file, and each failed file has
  its error record: \<open>one_entry_per_file_when_names_differ\<close>, \<open>ocr_directory_entries\<close>,
  \<open>svc_ocr_directory_entries\<close>.)
\<close>

theorem colliding_filenames_lose_entries:
  "glob demo_world (py ''c'') (py ''*/*.png'')
     = Inr [[py ''c'', py ''a'', py ''x.png''], [py ''c'', py ''b'', py ''x.png'']]
   \<and> svc_ocr_directory demo_world loaded_OCRService (py ''c'') (py ''*/*.png'')
       = Inr collision_report
   \<and> fst (ocr_directory demo_world HybridOCR_init (py ''c'') (py ''*/*.png'') True)
       = Inr collision_report
   \<and> length (results collision_report) = 1
   \<and> count_results collision_report = 1
   \<and> length (errors collision_report) = 2
   \<and> success_count collision_report = - 1"
  by (simp add: collision_directory_run)
     (simp add: example_defs collision_report_def)

text \<open>
  C4, as amended. An exception \<open>e\<close> that is an instance of \<open>Exception\<close> never leaves
  \<open>ocr_image\<close> (of either script). When \<open>crop_to_content\<close> raises it, or the text
  engine or the formula engine raises it on the crop, \<open>ocr_image\<close> returns the result
  with \<open>success = False\<close>, the error \<open>str(e)\<close> and the method \<open>error\<close>. The
  classification itself raises nothing.
\<close>

theorem ocr_image_catches_exceptions:
  assumes "isinstance_Exception e"
  shows
    "fst (ocr_image wld self p) \<noteq> Inl e \<and> svc_ocr_image wld svc p \<noteq> Inl e
     \<and> (crop_to_content wld p 20 250 = Inl e \<longrightarrow>
          ocr_image wld self p = (Inr (exception_result p e (Some (0, 0))), self)
          \<and> svc_ocr_image wld svc p = Inr (exception_result p e None))
     \<and> (\<forall>cropped cw ch pw ph.
          crop_to_content wld p 20 250 = Inr (Some cropped, (cw, ch, pw, ph)) \<longrightarrow>
          (if is_simple_content cw ch 5000 80
           then (\<forall>s1. ocr_simple wld self cropped = (Inl e, s1) \<longrightarrow>
                   ocr_image wld self p = (Inr (exception_result p e (Some (0, 0))), s1))
                \<and> (\<forall>t s1 s2. ocr_simple wld self cropped = (Inr t, s1) \<and> strip t = []
                      \<and> ocr_complex wld s1 cropped = (Inl e, s2) \<longrightarrow>
                   ocr_image wld self p = (Inr (exception_result p e (Some (0, 0))), s2))
                \<and> (svc_ocr_simple wld svc cropped = Inl e \<longrightarrow>
                   svc_ocr_image wld svc p = Inr (exception_result p e None))
                \<and> (\<forall>t. svc_ocr_simple wld svc cropped = Inr t \<and> strip t = []
                      \<and> svc_ocr_complex wld svc cropped = Inl e \<longrightarrow>
                   svc_ocr_image wld svc p = Inr (exception_result p e None))
           else (\<forall>s1. ocr_complex wld self cropped = (Inl e, s1) \<longrightarrow>
                   ocr_image wld self p = (Inr (exception_result p e (Some (0, 0))), s1))
                \<and> (svc_ocr_complex wld svc cropped = Inl e \<longrightarrow>
                   svc_ocr_image wld svc p = Inr (exception_result p e None))))"
proof (intro conjI allI impI)
  show "fst (ocr_image wld self p) \<noteq> Inl e"
    by (rule ocr_image_never_raises_Exception[OF assms])
  show "svc_ocr_image wld svc p \<noteq> Inl e"
    by (rule svc_ocr_image_never_raises_Exception[OF assms])
next
  assume "crop_to_content wld p 20 250 = Inl e"
  then show "ocr_image wld self p = (Inr (exception_result p e (Some (0, 0))), self)"
    and "svc_ocr_image wld svc p = Inr (exception_result p e None)"
    using assms
    by (simp_all add: ocr_image_def ocr_image_try_def svc_ocr_image_def svc_ocr_image_try_def
        exception_result_def)
next
  fix cropped cw ch pw ph
  assume "crop_to_content wld p 20 250 = Inr (Some cropped, (cw, ch, pw, ph))"
  then show "if is_simple_content cw ch 5000 80
           then (\<forall>s1. ocr_simple wld self cropped = (Inl e, s1) \<longrightarrow>
                   ocr_image wld self p = (Inr (exception_result p e (Some (0, 0))), s1))
                \<and> (\<forall>t s1 s2. ocr_simple wld self cropped = (Inr t, s1) \<and> strip t = []
                      \<and> ocr_complex wld s1 cropped = (Inl e, s2) \<longrightarrow>
                   ocr_image wld self p = (Inr (exception_result p e (Some (0, 0))), s2))
                \<and> (svc_ocr_simple wld svc cropped = Inl e \<longrightarrow>
                   svc_ocr_image wld svc p = Inr (exception_result p e None))
                \<and> (\<forall>t. svc_ocr_simple wld svc cropped = Inr t \<and> strip t = []
                      \<and> svc_ocr_complex wld svc cropped = Inl e \<longrightarrow>
                   svc_ocr_image wld svc p = Inr (exception_result p e None))
           else (\<forall>s1. ocr_complex wld self cropped = (Inl e, s1) \<longrightarrow>
                   ocr_image wld self p = (Inr (exception_result p e (Some (0, 0))), s1))
                \<and> (svc_ocr_complex wld svc cropped = Inl e \<longrightarrow>
                   svc_ocr_image wld svc p = Inr (exception_result p e None))"
    using assms
    by (simp add: ocr_image_def ocr_image_try_def svc_ocr_image_def svc_ocr_image_try_def
        exception_result_def)
qed

text \<open>
  The witness: the formula engine is not installed and the text engine reads blanks,
  so that the fallback raises; in the service no engine is loaded.
\<close>

theorem ocr_image_catches_exceptions_witness:
  "ocr_image text_only_world HybridOCR_init (py ''d/digit.png'')
     = (Inr (exception_result (py ''d/digit.png'') (RuntimeError (py ''pix2tex not available''))
               (Some (0, 0))),
        HybridOCR_init\<lparr>easyocr_reader := Some (Engine 2), easyocr_initialized := True\<rparr>)
   \<and> svc_ocr_image text_only_world OCRService_init (py ''d/digit.png'')
     = Inr (exception_result (py ''d/digit.png'') (RuntimeError (py ''EasyOCR not loaded'')) None)"
proof -
  let ?c = "crop digit_image (0, 0, 4, 4)"
  let ?s1 = "HybridOCR_init\<lparr>easyocr_reader := Some (Engine 2), easyocr_initialized := True\<rparr>"
  let ?e = "RuntimeError (py ''pix2tex not available'')"
  let ?e' = "RuntimeError (py ''EasyOCR not loaded'')"
  have cs: "crop_to_content text_only_world (py ''d/digit.png'') 20 250
              = Inr (Some ?c, (1, 1, 4, 4))"
    using crop_digit by (simp add: text_only_world_def silent_world_def)
  have t1: "ocr_simple text_only_world HybridOCR_init ?c = (Inr (py ''  ''), ?s1)"
    by (simp add: example_defs run_defs)
  have b: "strip (py ''  '') = []" by (simp add: py_def strip_def isspace_def)
  have f1: "ocr_complex text_only_world ?s1 ?c = (Inl ?e, ?s1)"
    by (simp add: example_defs run_defs)
  have t2: "svc_ocr_simple text_only_world OCRService_init ?c = Inl ?e'"
    by (simp add: example_defs run_defs)
  have A: "ocr_image text_only_world HybridOCR_init (py ''d/digit.png'')
             = (Inr (exception_result (py ''d/digit.png'') ?e (Some (0, 0))), ?s1)"
    using ocr_image_catches_exceptions[of ?e text_only_world HybridOCR_init "py ''d/digit.png''"
        OCRService_init] cs one_by_one_simple t1 b f1
    by simp
  have B: "svc_ocr_image text_only_world OCRService_init (py ''d/digit.png'')
             = Inr (exception_result (py ''d/digit.png'') ?e' None)"
    using ocr_image_catches_exceptions[of ?e' text_only_world HybridOCR_init "py ''d/digit.png''"
        OCRService_init] cs one_by_one_simple t2
    by simp
  from A B show ?thesis by simp
qed

text \<open>
  C4 as stated, for any exception, fails: the handler is \<open>except Exception\<close>, and a
  \<open>KeyboardInterrupt\<close> that reaches the formula engine on \<open>d/formula.png\<close> leaves
  \<open>ocr_image\<close> of either script.
\<close>

theorem ocr_image_propagates_interrupt:
  "fst (ocr_image interrupted_world HybridOCR_init (py ''d/formula.png''))
     = Inl KeyboardInterrupt
   \<and> svc_ocr_image interrupted_world loaded_OCRService (py ''d/formula.png'')
     = Inl KeyboardInterrupt"
  by (simp add: example_defs crop_defs run_defs)

text \<open>
  C5, as amended. The batch runner of either script goes through the matching files
  in the order of their paths, compared part by part, whatever the order in which the
  file system enumerates them: a run on another enumeration \<open>g\<close> of the same files is
  the same run; the files of the error records are a subsequence of the sorted paths'
  names; when the names differ the keys of \<open>results\<close> are these names in that order;
  and when all matching files lie in one directory this is the lexicographic order of
  the file names, in which the error records then are as well.
\<close>

theorem batch_in_path_order:
  assumes "glob wld directory pattern = Inr fs"
    and "g directory pattern = Inr gs" and "mset gs = mset fs"
    and "fst (ocr_directory wld self directory pattern ac) = Inr rep
         \<or> svc_ocr_directory wld svc directory pattern = Inr rep"
  shows "ocr_directory (wld\<lparr>glob := g\<rparr>) self directory pattern ac
           = ocr_directory wld self directory pattern ac
     \<and> svc_ocr_directory (wld\<lparr>glob := g\<rparr>) svc directory pattern
           = svc_ocr_directory wld svc directory pattern
     \<and> subseq (map err_file (errors rep)) (map path_name (sort fs))
     \<and> (distinct (map path_name fs) \<longrightarrow> map fst (results rep) = map path_name (sort fs))
     \<and> ((\<exists>parent. \<forall>p\<in>set fs. \<exists>n. p = parent @ [n]) \<longrightarrow>
          sorted (map path_name (sort fs)) \<and> sorted (map err_file (errors rep)))"
proof -
  have s: "sort gs = sort fs"
    by (rule sort_enumeration[OF assms(3)])
  have a: "ocr_directory (wld\<lparr>glob := g\<rparr>) self directory pattern ac
           = ocr_directory wld self directory pattern ac"
    by (simp add: ocr_directory_def Let_def assms(1,2) s glob_update_batch_loop)
  have b: "svc_ocr_directory (wld\<lparr>glob := g\<rparr>) svc directory pattern
           = svc_ocr_directory wld svc directory pattern"
    by (simp add: svc_ocr_directory_def Let_def assms(1,2) s glob_update_svc_batch_loop)
  have r: "rep = empty_report \<and> fs = []
         \<or> (\<exists>vars. rep = make_report vars \<and> loop_adds (sort fs) ([], [], 0, 0) vars)"
    using assms(4) ocr_directory_report[OF assms(1)] svc_ocr_directory_report[OF assms(1)]
    by blast
  have c: "subseq (map err_file (errors rep)) (map path_name (sort fs))"
    by (rule report_in_path_order(1)[OF r])
  have d: "map fst (results rep) = map path_name (sort fs)"
    if "distinct (map path_name fs)"
    by (rule report_in_path_order(2)[OF r that])
  have e: "sorted (map path_name (sort fs)) \<and> sorted (map err_file (errors rep))"
    if "\<exists>parent. \<forall>p\<in>set fs. \<exists>n. p = parent @ [n]"
  proof -
    from that obtain parent where "\<forall>p\<in>set fs. \<exists>n. p = parent @ [n]" by blast
    then have "sorted (map path_name (sort fs))" by (rule sorted_names_same_directory)
    with c sorted_subseq show ?thesis by blast
  qed
  from a b c d e show ?thesis by blast
qed

text \<open>The witness: the directory \<open>d\<close>, enumerated in two orders.\<close>

theorem batch_in_path_order_witness:
  "ocr_directory (demo_world\<lparr>glob := \<lambda>d pat. Inr (rev demo_files)\<rparr>) HybridOCR_init
       (py ''d'') (py ''*.png'') True
     = ocr_directory demo_world HybridOCR_init (py ''d'') (py ''*.png'') True
   \<and> map fst (results demo_report) = [py ''digit.png'', py ''dot.png'', py ''formula.png'']
   \<and> sorted (map err_file (errors demo_report))
   \<and> sorted (map path_name (sort demo_files))"
proof -
  have l: "glob demo_world (py ''d'') (py ''*.png'') = Inr demo_files"
    by (simp add: demo_world_def py_def)
  have l': "(\<lambda>d pat. Inr (rev demo_files) :: py_exc + path list) (py ''d'') (py ''*.png'')
              = Inr (rev demo_files)" by simp
  have m: "mset (rev demo_files) = mset demo_files" by simp
  have r: "fst (ocr_directory demo_world HybridOCR_init (py ''d'') (py ''*.png'') True)
             = Inr demo_report
           \<or> svc_ocr_directory demo_world loaded_OCRService (py ''d'') (py ''*.png'')
             = Inr demo_report"
    by (simp add: demo_directory_run)
  have n: "distinct (map path_name demo_files)"
    by (simp add: demo_files_def py_def path_name_def)
  have p: "\<exists>parent. \<forall>p\<in>set demo_files. \<exists>n. p = parent @ [n]"
    by (rule exI[of _ "[py ''d'']"]) (simp add: demo_files_def)
  have k: "map path_name (sort demo_files)
             = [py ''digit.png'', py ''dot.png'', py ''formula.png'']"
    by (simp add: demo_files_def py_def path_name_def)
  from batch_in_path_order[OF l l' m r] n p k
  show ?thesis by simp
qed

text \<open>
  C5 as stated fails on the directory \<open>n\<close> with the pattern \<open>*/*.png\<close>: the path
  \<open>n/a/z.png\<close> sorts before \<open>n/b/a.png\<close>, so \<open>z.png\<close> is processed, and listed in the
  errors, before \<open>a.png\<close>.
\<close>

theorem batch_not_in_filename_order:
  "fst (ocr_directory demo_world HybridOCR_init (py ''n'') (py ''*/*.png'') True)
     = Inr nested_report
   \<and> svc_ocr_directory demo_world loaded_OCRService (py ''n'') (py ''*/*.png'')
     = Inr nested_report
   \<and> map err_file (errors nested_report) = [py ''z.png'', py ''a.png'']
   \<and> map fst (results nested_report) = [py ''z.png'', py ''a.png'']
   \<and> \<not> sorted [py ''z.png'', py ''a.png'']"
  by (simp add: nested_directory_run)
     (simp add: nested_report_def no_content_entry_def py_def)

text \<open>
  C6, as amended. In a run with \<open>auto_cleanup\<close> on an existing directory whose listing
  returns the files \<open>fs\<close>: when there is at least one file, the object is left as
  \<open>cleanup\<close> leaves the state the loop ended in, whether the loop returned its variables
  (the report is then made of them) or raised (the exception is then raised again), so
  that from every state the methods produce both engines are released; when there is
  no file, the empty report is returned at once and the object is left as it was.
\<close>

theorem cleanup_after_batch_loop:
  assumes "path_exists wld directory" and "glob wld directory pattern = Inr fs"
  shows "if fs = []
         then ocr_directory wld self directory pattern True = (Inr empty_report, self)
         else snd (ocr_directory wld self directory pattern True)
                = cleanup (snd (batch_loop wld (sort fs) self ([], [], 0, 0)))
              \<and> (\<forall>e. fst (batch_loop wld (sort fs) self ([], [], 0, 0)) = Inl e \<longrightarrow>
                      fst (ocr_directory wld self directory pattern True) = Inl e)
              \<and> (\<forall>vars. fst (batch_loop wld (sort fs) self ([], [], 0, 0)) = Inr vars \<longrightarrow>
                      fst (ocr_directory wld self directory pattern True)
                        = Inr (make_report vars))
              \<and> (loaded_consistent self \<longrightarrow>
                      snd (ocr_directory wld self directory pattern True) = HybridOCR_init)"
proof (cases "fs = []")
  case True
  with assms show ?thesis by (simp add: ocr_directory_def)
next
  case False
  let ?loop = "batch_loop wld (sort fs) self ([], [], 0, 0)"
  have ne: "sort fs \<noteq> []"
    using False by (metis length_sort length_0_conv)
  obtain r s1 where l: "?loop = (r, s1)" by (cases ?loop) auto
  have st: "snd (ocr_directory wld self directory pattern True) = cleanup (snd ?loop)"
    using assms ne l by (cases r) (simp_all add: ocr_directory_def Let_def)
  have ex: "fst (ocr_directory wld self directory pattern True) = Inl e" if "fst ?loop = Inl e" for e
    using assms ne l that by (cases r) (simp_all add: ocr_directory_def Let_def)
  have ok: "fst (ocr_directory wld self directory pattern True) = Inr (make_report vars)"
    if "fst ?loop = Inr vars" for vars
    using assms ne l that by (cases r) (simp_all add: ocr_directory_def Let_def)
  have rel: "snd (ocr_directory wld self directory pattern True) = HybridOCR_init"
    if "loaded_consistent self"
    using st loaded_consistent_batch_loop[OF that] by (simp add: cleanup_consistent)
  from False st ex ok rel show ?thesis by simp
qed

text \<open>
  The witness: the formula engine is interrupted on the third file of \<open>d\<close>, when both
  engines are loaded; the interrupt leaves \<open>ocr_directory\<close> and the engines are released.
\<close>

theorem cleanup_after_batch_loop_witness:
  "snd (batch_loop interrupted_world (sort demo_files) HybridOCR_init ([], [], 0, 0))
     = loaded_HybridOCR
   \<and> ocr_directory interrupted_world HybridOCR_init (py ''d'') (py ''*.png'') True
       = (Inl KeyboardInterrupt, HybridOCR_init)"
proof -
  have p: "path_exists interrupted_world (py ''d'')" by (simp add: example_defs)
  have g: "glob interrupted_world (py ''d'') (py ''*.png'') = Inr demo_files"
    by (simp add: interrupted_world_def demo_world_def py_def)
  have ne: "demo_files \<noteq> []" by (simp add: demo_files_def)
  have c: "loaded_consistent HybridOCR_init" by (rule loaded_consistent_init)
  from cleanup_after_batch_loop[OF p g, of HybridOCR_init] ne c interrupted_loop_state
  have "snd (ocr_directory interrupted_world HybridOCR_init (py ''d'') (py ''*.png'') True)
          = HybridOCR_init
        \<and> fst (ocr_directory interrupted_world HybridOCR_init (py ''d'') (py ''*.png'') True)
          = Inl KeyboardInterrupt"
    by (simp add: cleanup_consistent[OF loaded_consistent_loaded_HybridOCR])
  then show ?thesis
    using interrupted_loop_state by (simp add: prod_eq_iff)
qed

text \<open>
  C6 as stated fails on the empty directory: a run with \<open>auto_cleanup\<close> on an object
  whose engines are loaded (as a run without \<open>auto_cleanup\<close> leaves it) returns the empty
  report and leaves them loaded, which \<open>cleanup\<close> would not.
\<close>

theorem cleanup_skipped_on_empty_directory:
  "path_exists demo_world (py ''empty'')
   \<and> glob demo_world (py ''empty'') (py ''*.png'') = Inr []
   \<and> snd (ocr_directory demo_world HybridOCR_init (py ''d'') (py ''*.png'') False)
       = loaded_HybridOCR
   \<and> ocr_directory demo_world loaded_HybridOCR (py ''empty'') (py ''*.png'') True
       = (Inr empty_report, loaded_HybridOCR)
   \<and> cleanup loaded_HybridOCR \<noteq> loaded_HybridOCR"
  by (simp add: loaded_HybridOCR_reached)
     (simp add: example_defs ocr_directory_def cleanup_def)

text \<open>
  C7. \<open>cleanup\<close> is a total function of the object: it returns for every state.
  Called on a fresh object it leaves the object as \<open>__init__\<close> made it; called twice
  in a row, the second call changes nothing; and on every state the methods produce
  (\<open>loaded_consistent\<close>) one call, and so two, leave both engine attributes \<open>None\<close> and
  both flags \<open>False\<close>.
\<close>

theorem cleanup_idempotent_total:
  "cleanup HybridOCR_init = HybridOCR_init
   \<and> cleanup (cleanup self) = cleanup self
   \<and> (loaded_consistent self \<longrightarrow>
        cleanup self = HybridOCR_init \<and> cleanup (cleanup self) = HybridOCR_init)"
  by (simp add: cleanup_init cleanup_cleanup cleanup_consistent)

text \<open>The witness: the object with both engines loaded.\<close>

theorem cleanup_idempotent_total_witness:
  "loaded_consistent loaded_HybridOCR
   \<and> cleanup loaded_HybridOCR = HybridOCR_init
   \<and> cleanup (cleanup loaded_HybridOCR) = HybridOCR_init"
proof -
  have c: "loaded_consistent loaded_HybridOCR"
    by (simp add: loaded_consistent_def loaded_HybridOCR_def)
  from cleanup_idempotent_total[of loaded_HybridOCR] c show ?thesis by blast
qed

text \<open>
  C8. When the text engine returns the list \<open>result\<close> to \<open>ocr_simple\<close> (of either
  script): for the empty list the method returns the empty string; otherwise \<open>result\<close>
  splits as \<open>pre @ (bbox, t, c) # post\<close> where every region of \<open>pre\<close> has a confidence
  below \<open>c\<close> and every region of \<open>post\<close> a confidence of at most \<open>c\<close>, and the method
  returns \<open>t\<close>: the text of the earliest region of maximal confidence.
\<close>

theorem ocr_simple_highest_confidence:
  assumes "ensure_easyocr wld self = (Inr (), self1)"
    and "easyocr_reader self1 = Some rd"
    and "svc_easyocr_reader svc = Some rd"
    and "readtext wld rd img = Inr result"
  shows "if result = []
         then ocr_simple wld self img = (Inr [], self1) \<and> svc_ocr_simple wld svc img = Inr []
         else \<exists>pre bbox t c post.
                result = pre @ (bbox, t, c) # post
                \<and> (\<forall>q\<in>set pre. snd (snd q) < c) \<and> (\<forall>q\<in>set post. snd (snd q) \<le> c)
                \<and> ocr_simple wld self img = (Inr t, self1)
                \<and> svc_ocr_simple wld svc img = Inr t"
proof (cases "result = []")
  case True
  with assms show ?thesis by (simp add: ocr_simple_def svc_ocr_simple_def)
next
  case False
  from highest_confidence_text_decomp[OF False] obtain pre bbox t c post where
    d: "result = pre @ (bbox, t, c) # post" and h: "highest_confidence_text result = t"
    and p: "\<forall>q\<in>set pre. snd (snd q) < c" and q: "\<forall>q\<in>set post. snd (snd q) \<le> c"
    by blast
  have "ocr_simple wld self img = (Inr t, self1)"
    using assms False h by (simp add: ocr_simple_def)
  moreover have "svc_ocr_simple wld svc img = Inr t"
    using assms False h by (simp add: svc_ocr_simple_def)
  ultimately show ?thesis using False d p q by auto
qed

text \<open>
  The witness: three regions, the second and third sharing the highest confidence; the
  text returned is that of the second (\<open>ocr_simple_demo_regions\<close>).
\<close>

theorem ocr_simple_highest_confidence_witness:
  "\<exists>pre bbox t c post.
      demo_regions = pre @ (bbox, t, c) # post
      \<and> (\<forall>q\<in>set pre. snd (snd q) < c) \<and> (\<forall>q\<in>set post. snd (snd q) \<le> c)
      \<and> ocr_simple demo_world HybridOCR_init digit_image
          = (Inr t, HybridOCR_init\<lparr>easyocr_reader := Some (Engine 2), easyocr_initialized := True\<rparr>)
      \<and> svc_ocr_simple demo_world loaded_OCRService digit_image = Inr t"
proof -
  have e: "ensure_easyocr demo_world HybridOCR_init
             = (Inr (), HybridOCR_init\<lparr>easyocr_reader := Some (Engine 2), easyocr_initialized := True\<rparr>)"
    by (simp add: ensure_easyocr_def example_defs)
  have r: "easyocr_reader (HybridOCR_init\<lparr>easyocr_reader := Some (Engine 2), easyocr_initialized := True\<rparr>)
             = Some (Engine 2)" by simp
  have s: "svc_easyocr_reader loaded_OCRService = Some (Engine 2)"
    by (simp add: loaded_OCRService_def)
  have t: "readtext demo_world (Engine 2) digit_image = Inr demo_regions"
    by (simp add: demo_world_def)
  have ne: "demo_regions \<noteq> []" by (simp add: demo_regions_def)
  from ocr_simple_highest_confidence[OF e r s t] ne show ?thesis by simp
qed

text \<open>
  C9. Two executions of \<open>ocr_image\<close> do run at once in the service. While the thread
  of a batch request on \<open>d\<close> holds the lock and is inside \<open>ocr_image\<close> on its first file,
  the thread of a single-image request enters \<open>ocr_image\<close> without waiting: after the
  schedule in which the batch thread takes two steps and the single thread one, the
  lock is held and two threads are inside \<open>ocr_image\<close>. (Threads of batch requests alone
  never are: \<open>batches_exclude_each_other\<close>.)
\<close>

theorem single_request_runs_during_batch:
  "run_threads [0, 0, 1]
     (False, [ocr_batch demo_world (py ''d'') (py ''*.png''), ocr_single (py ''d/formula.png'')])
   = Some (True,
       [[Leave_ocr_image (py ''d/digit.png''),
         Enter_ocr_image (py ''d/dot.png''), Leave_ocr_image (py ''d/dot.png''),
         Enter_ocr_image (py ''d/formula.png''), Leave_ocr_image (py ''d/formula.png''),
         Release_lock],
        [Leave_ocr_image (py ''d/formula.png'')]])
   \<and> executions
       [[Leave_ocr_image (py ''d/digit.png''),
         Enter_ocr_image (py ''d/dot.png''), Leave_ocr_image (py ''d/dot.png''),
         Enter_ocr_image (py ''d/formula.png''), Leave_ocr_image (py ''d/formula.png''),
         Release_lock],
        [Leave_ocr_image (py ''d/formula.png'')]] = 2"
  by (simp add: ocr_batch_def ocr_single_def executions_def example_defs path_str_def)

text \<open>
  C10. An image that has a pixel darker than the threshold, and whose dark pixels all
  lie in one row or all in one column, makes \<open>crop_to_content\<close> return the no-content
  signal: \<open>None\<close> and four zero dimensions.
\<close>

theorem crop_to_content_single_line_no_content:
  assumes "Image_open_L wld image_path = Inr img"
    and "0 \<le> x1" "x1 < size_w img" "0 \<le> y1" "y1 < size_h img"
    and "pixels img (x1, y1) < threshold"
    and "(\<forall>x y. 0 \<le> x \<and> x < size_w img \<and> 0 \<le> y \<and> y < size_h img \<and>
                pixels img (x, y) < threshold \<longrightarrow> y = y1)
         \<or> (\<forall>x y. 0 \<le> x \<and> x < size_w img \<and> 0 \<le> y \<and> y < size_h img \<and>
                pixels img (x, y) < threshold \<longrightarrow> x = x1)"
  shows "crop_to_content wld image_path padding threshold = Inr (None, (0, 0, 0, 0))"
proof -
  obtain min_x min_y max_x max_y
    where cb: "content_bounds img threshold = (min_x, min_y, max_x, max_y)"
    by (cases "content_bounds img threshold") auto
  from assms(7) have "max_x \<le> min_x \<or> max_y \<le> min_y"
  proof
    assume "\<forall>x y. 0 \<le> x \<and> x < size_w img \<and> 0 \<le> y \<and> y < size_h img \<and>
                pixels img (x, y) < threshold \<longrightarrow> y = y1"
    then have "row_inv y1 (content_bounds img threshold)"
      using assms(4,5) by (intro content_bounds_single_row) auto
    then show ?thesis by (simp add: cb row_inv_def)
  next
    assume "\<forall>x y. 0 \<le> x \<and> x < size_w img \<and> 0 \<le> y \<and> y < size_h img \<and>
                pixels img (x, y) < threshold \<longrightarrow> x = x1"
    then have "col_inv x1 (content_bounds img threshold)"
      using assms(2,3) by (intro content_bounds_single_col) auto
    then show ?thesis by (simp add: cb col_inv_def)
  qed
  then show ?thesis
    using assms(1) cb by (auto simp: crop_to_content_def)
qed

text \<open>
  The witness: the image with exactly one dark pixel, for which \<open>ocr_image\<close> then
  reports that no content was found.
\<close>

theorem crop_to_content_one_dark_pixel:
  "pixels dot_image (1, 1) < 250
   \<and> crop_to_content demo_world (py ''d/dot.png'') 20 250 = Inr (None, (0, 0, 0, 0))
   \<and> fst (ocr_image demo_world HybridOCR_init (py ''d/dot.png''))
       = Inr \<lparr>success = False, latex = [], res_file = py ''d/dot.png'',
              error = Some (py ''No content found''), res_method = py ''none'',
              content_size = Some (0, 0), is_simple = None\<rparr>"
proof -
  have o: "Image_open_L demo_world (py ''d/dot.png'') = Inr dot_image"
    by (simp add: example_defs)
  have d: "pixels dot_image (1, 1) < 250" by (simp add: dot_image_def)
  have r: "(\<forall>x y. 0 \<le> x \<and> x < size_w dot_image \<and> 0 \<le> y \<and> y < size_h dot_image \<and>
                pixels dot_image (x, y) < 250 \<longrightarrow> y = 1)
         \<or> (\<forall>x y. 0 \<le> x \<and> x < size_w dot_image \<and> 0 \<le> y \<and> y < size_h dot_image \<and>
                pixels dot_image (x, y) < 250 \<longrightarrow> x = 1)"
    by (simp add: dot_image_def)
  have c: "crop_to_content demo_world (py ''d/dot.png'') 20 250 = Inr (None, (0, 0, 0, 0))"
    by (rule crop_to_content_single_line_no_content[OF o _ _ _ _ d r])
       (simp_all add: dot_image_def)
  from c d show ?thesis
    by (simp add: ocr_image_def ocr_image_try_def)
qed

end
